theory Spec2Isabelle
  imports
    Complex_Main
    "HOL-Library.Multiset"
    "HOL-Library.List_Lexorder"
    "HOL-Library.Char_ord"
    "HOL-Library.Product_Lexorder"
begin

section \<open>Dates and times\<close>

text \<open>
  A Python \<^verbatim>\<open>datetime\<close> (and a pandas \<^verbatim>\<open>Timestamp\<close>) is modelled by the tuple
  (year, month, day, time of day in microseconds). The lexicographic order of the tuple is
  the chronological order, which is the order pandas uses for \<^verbatim>\<open>max()\<close> and for
  \<^verbatim>\<open>sort_values\<close>.
\<close>

type_synonym datetime = "nat \<times> nat \<times> nat \<times> nat"

definition year_of :: "datetime \<Rightarrow> nat" where
  "year_of dt = fst dt"

definition month_of :: "datetime \<Rightarrow> nat" where
  "month_of dt = fst (snd dt)"

definition day_of :: "datetime \<Rightarrow> nat" where
  "day_of dt = fst (snd (snd dt))"

definition tod_of :: "datetime \<Rightarrow> nat" where
  "tod_of dt = snd (snd (snd dt))"

definition is_leap :: "nat \<Rightarrow> bool" where
  "is_leap y = (y mod 4 = 0 \<and> (y mod 100 \<noteq> 0 \<or> y mod 400 = 0))"

definition days_in_month :: "nat \<Rightarrow> nat \<Rightarrow> nat" where
  "days_in_month y m =
     (if m = 2 then (if is_leap y then 29 else 28)
      else if m = 4 \<or> m = 6 \<or> m = 9 \<or> m = 11 then 30
      else 31)"

text \<open>What the constructors of the two Python types accept: a day of the calendar.\<close>

definition valid_dt :: "datetime \<Rightarrow> bool" where
  "valid_dt dt =
     (1 \<le> month_of dt \<and> month_of dt \<le> 12 \<and> 1 \<le> day_of dt
      \<and> day_of dt \<le> days_in_month (year_of dt) (month_of dt)
      \<and> tod_of dt < 86400000000)"

text \<open>
  A pandas \<^verbatim>\<open>Timestamp\<close> counts the nanoseconds from 1970 in 64 bits: it holds the
  instants from 1677-09-21 00:12:43.145225 to 2262-04-11 23:47:16.854775 only. Building a
  \<^verbatim>\<open>Timestamp\<close> outside of this range raises.
\<close>

definition in_bounds :: "datetime \<Rightarrow> bool" where
  "in_bounds dt = ((1677, 9, 21, 763145225) \<le> dt \<and> dt \<le> (2262, 4, 11, 85636854775))"

text \<open>
  The calendar date \<open>n\<close> days after a date: the calendar day is advanced \<open>n\<close> times, the
  time of day is kept.
\<close>

fun next_day :: "datetime \<Rightarrow> datetime" where
  "next_day (y, m, d, t) =
     (if d < days_in_month y m then (y, m, d + 1, t)
      else if m < 12 then (y, m + 1, 1, t)
      else (y + 1, 1, 1, t))"

fun add_days :: "nat \<Rightarrow> datetime \<Rightarrow> datetime" where
  "add_days 0 dt = dt"
| "add_days (Suc n) dt = next_day (add_days n dt)"

text \<open>\<^verbatim>\<open>start_date.replace(day=1, hour=0, minute=0, second=0, microsecond=0)\<close>\<close>

definition month_start :: "datetime \<Rightarrow> datetime" where
  "month_start dt = (year_of dt, month_of dt, 1, 0)"

section \<open>The remote source\<close>

text \<open>
  One hourly reading of the response, \<^verbatim>\<open>[ts, temp]\<close>: a timestamp text, modelled by the
  numbers it spells, and a temperature, which is a JSON number. The number is modelled as
  a real and the arithmetic on it is exact: the rounding of IEEE doubles is not modelled,
  and neither is a reading whose temperature is \<^verbatim>\<open>null\<close> or not a number.
\<close>

record reading =
  ts :: datetime
  temp :: real

text \<open>
  The value under \<^verbatim>\<open>'data'\<close>: an object holding the list \<^verbatim>\<open>'readings'\<close>, an object
  without the key \<^verbatim>\<open>'readings'\<close>, or a JSON value that is not an object (a text, a
  number, a list, \<^verbatim>\<open>null\<close>); the last two are kept as an opaque text.
\<close>

datatype json_data = Readings "reading list" | Object string | Scalar string

text \<open>The JSON object of the response; \<open>None\<close> is a missing key.\<close>

record response =
  status :: "string option"
  data :: "json_data option"

text \<open>
  \<^verbatim>\<open>requests.get(...).json()\<close> either raises (no connection, a body that is not JSON),
  or gives a JSON value that is not an object, or gives the response object.
\<close>

datatype reply = NoReply | NotObject string | Reply response

text \<open>
  The exceptions. \<^verbatim>\<open>ValueError\<close> is the one that line 138 raises, with the payload it
  prints; \<^verbatim>\<open>ParserError\<close> and \<^verbatim>\<open>OutOfBoundsDatetime\<close> are the two that pandas raises
  for a timestamp.
\<close>

datatype error =
    RequestException
  | KeyError string
  | ParserError
  | OutOfBoundsDatetime
  | ValueError json_data
  | TypeError

text \<open>
  The remote source is a parameter of the model: a function of the sensor id and of the
  start of the requested period (sent as \<^verbatim>\<open>start_ts\<close>, the date of a first of a
  month at midnight).
\<close>

type_synonym remote = "string \<Rightarrow> datetime \<Rightarrow> reply"

section \<open>The Aggregator: \<^verbatim>\<open>dd_for_site\<close>\<close>

text \<open>
  \<^verbatim>\<open>pd.to_datetime(df.index)\<close> converts the texts one after the other: it raises on the
  first text that is not a date, or that is a date outside of the range of a
  \<^verbatim>\<open>Timestamp\<close>.
\<close>

fun to_datetime :: "reading list \<Rightarrow> error + reading list" where
  "to_datetime [] = Inr []"
| "to_datetime (r # rs) =
     (if \<not> valid_dt (ts r) then Inl ParserError
      else if \<not> in_bounds (ts r) then Inl OutOfBoundsDatetime
      else (case to_datetime rs of Inl e \<Rightarrow> Inl e | Inr df \<Rightarrow> Inr (r # df)))"

text \<open>
  \<^verbatim>\<open>df.resample('1M')\<close>: the readings are grouped in calendar months, one bin for every
  month from the month of the earliest reading to the month of the latest one, the months
  without a reading included; each bin is labelled with the last day of its month. A month
  is numbered \<open>12 * year + (month - 1)\<close>. No reading gives no bin.
\<close>

definition mkey :: "datetime \<Rightarrow> nat" where
  "mkey dt = year_of dt * 12 + (month_of dt - 1)"

definition month_end :: "nat \<Rightarrow> datetime" where
  "month_end k = (k div 12, k mod 12 + 1, days_in_month (k div 12) (k mod 12 + 1), 0)"

definition resample :: "reading list \<Rightarrow> (datetime \<times> reading list) list" where
  "resample df =
     (if df = [] then []
      else let ks = map (\<lambda>r. mkey (ts r)) df
           in map (\<lambda>k. (month_end k, filter (\<lambda>r. mkey (ts r) = k) df))
                [Min (set ks) ..< Suc (Max (set ks))])"

text \<open>A float that may be NaN: \<open>None\<close> is NaN.\<close>

type_synonym float_nan = "real option"

text \<open>
  \<^verbatim>\<open>.mean()\<close> of a bin: NaN for a bin without a value, and the sum of the values
  divided by their number otherwise (computed on the reals, without rounding).
\<close>

definition mean :: "real list \<Rightarrow> float_nan" where
  "mean xs = (if xs = [] then None else Some (sum_list xs / real (length xs)))"

definition hdd60_hour :: "real \<Rightarrow> real" where
  "hdd60_hour x = (if x < 60 then (60 - x) / 24 else 0)"

definition hdd65_hour :: "real \<Rightarrow> real" where
  "hdd65_hour x = (if x < 65 then (65 - x) / 24 else 0)"

text \<open>The columns the Aggregator's table shares with the persisted one.\<close>

record dd_cols =
  month :: datetime
  hdd60 :: float_nan
  hdd65 :: float_nan

record dfm_row = dd_cols +
  coverage :: real

text \<open>
  One row of \<^verbatim>\<open>dfm\<close>, from a bin labelled \<open>i\<close> (the last day of the month) that holds
  the readings \<open>g\<close>: the count and the hours of the month give the coverage, the mean of
  the hourly degree-days is scaled by the hours of the month, and the label is rewritten
  to the first day of the month.
\<close>

definition dfm_of_bin :: "datetime \<Rightarrow> reading list \<Rightarrow> dfm_row" where
  "dfm_of_bin i g =
     (let total_hours = day_of i * 24
      in \<lparr>month = (year_of i, month_of i, 1, 0),
          hdd60 = map_option (\<lambda>v. v * real total_hours) (mean (map (\<lambda>r. hdd60_hour (temp r)) g)),
          hdd65 = map_option (\<lambda>v. v * real total_hours) (mean (map (\<lambda>r. hdd65_hour (temp r)) g)),
          coverage = real (length g) / real total_hours\<rparr>)"

definition monthly :: "reading list \<Rightarrow> dfm_row list" where
  "monthly df = map (\<lambda>(i, g). dfm_of_bin i g) (resample df)"

text \<open>
  Lines 111 to 140, what the function does with the reply to its request. Subscripting
  a value that is not an object raises a \<^verbatim>\<open>TypeError\<close>, a missing key a
  \<^verbatim>\<open>KeyError\<close>.
\<close>

definition dfm_of_reply :: "reply \<Rightarrow> error + dfm_row list" where
  "dfm_of_reply rp =
     (case rp of
        NoReply \<Rightarrow> Inl RequestException
      | NotObject v \<Rightarrow> Inl TypeError
      | Reply resp \<Rightarrow>
          (case status resp of
             None \<Rightarrow> Inl (KeyError ''status'')
           | Some s \<Rightarrow>
               if s = ''success'' then
                 (case data resp of
                    None \<Rightarrow> Inl (KeyError ''data'')
                  | Some (Scalar p) \<Rightarrow> Inl TypeError
                  | Some (Object p) \<Rightarrow> Inl (KeyError ''readings'')
                  | Some (Readings rs) \<Rightarrow>
                      (case to_datetime rs of
                         Inl e \<Rightarrow> Inl e
                       | Inr df \<Rightarrow> Inr (monthly df)))
               else
                 (case data resp of
                    None \<Rightarrow> Inl (KeyError ''data'')
                  | Some d \<Rightarrow> Inl (ValueError d))))"

text \<open>
  The whole function: the request is for the sensor of the station, from the first
  instant of the month of the start date.
\<close>

definition dd_for_site :: "remote \<Rightarrow> string \<Rightarrow> datetime \<Rightarrow> error + dfm_row list" where
  "dd_for_site bmon stn start_date =
     (let st_dt_1 = month_start start_date;
          sensor_id = stn @ ''_temp''
      in dfm_of_reply (bmon sensor_id st_dt_1))"

section \<open>The Merger: the script's main part\<close>

text \<open>
  A row of the persisted table: the index (the station code) and the columns
  \<^verbatim>\<open>month\<close>, \<^verbatim>\<open>hdd60\<close>, \<^verbatim>\<open>hdd65\<close>.
\<close>

record df_row = dd_cols +
  station :: string

text \<open>
  The Python constant is the double nearest to 0.7. The coverage it is compared with is
  the quotient of two whole numbers, the divisor at most 744; such a quotient is above
  that double exactly when it is above 7/10, so the comparison is modelled on the reals.
\<close>

definition MIN_COVERAGE :: real where
  "MIN_COVERAGE = 7 / 10"

text \<open>\<^verbatim>\<open>df_exist.index.unique()\<close>: the stations in the order of their first rows.\<close>

fun unique_from :: "'a list \<Rightarrow> 'a list \<Rightarrow> 'a list" where
  "unique_from seen [] = []"
| "unique_from seen (x # xs) =
     (if x \<in> set seen then unique_from seen xs else x # unique_from (x # seen) xs)"

definition unique :: "'a list \<Rightarrow> 'a list" where
  "unique xs = unique_from [] xs"

text \<open>
  \<^verbatim>\<open>df_exist.loc[stn].month.max()\<close>. For a station with two rows or more
  \<^verbatim>\<open>df_exist.loc[stn]\<close> is a table, \<^verbatim>\<open>.month\<close> is its column and
  \<^verbatim>\<open>.max()\<close> the latest month. For a station with one row only, pandas gives the row
  itself, \<^verbatim>\<open>.month\<close> is then one \<^verbatim>\<open>Timestamp\<close>, whose attribute \<^verbatim>\<open>max\<close> is the
  constant \<^verbatim>\<open>Timestamp.max\<close> and not a method: calling it raises a \<^verbatim>\<open>TypeError\<close>. A
  code that is not in the index raises a \<^verbatim>\<open>KeyError\<close>.
\<close>

definition last_mo :: "df_row list \<Rightarrow> string \<Rightarrow> error + datetime" where
  "last_mo df_exist stn =
     (case filter (\<lambda>r. station r = stn) df_exist of
        [] \<Rightarrow> Inl (KeyError stn)
      | [r] \<Rightarrow> Inl TypeError
      | r # r' # rs \<Rightarrow> Inr (Max (set (map month (r # r' # rs)))))"

text \<open>
  The rows of \<^verbatim>\<open>df_new\<close> once put in the form of the persisted table: the month becomes
  a column, the station the index, the coverage is dropped.
\<close>

definition to_df_row :: "string \<Rightarrow> dfm_row \<Rightarrow> df_row" where
  "to_df_row stn r = \<lparr>month = month r, hdd60 = hdd60 r, hdd65 = hdd65 r, station = stn\<rparr>"

text \<open>
  \<^verbatim>\<open>last_mo + timedelta(days=n)\<close> on a \<^verbatim>\<open>Timestamp\<close>: the date \<open>n\<close> days later, and
  an exception when that date is outside of the range of a \<^verbatim>\<open>Timestamp\<close>.
\<close>

definition plus_days :: "datetime \<Rightarrow> nat \<Rightarrow> error + datetime" where
  "plus_days dt n =
     (let r = add_days n dt in if in_bounds r then Inr r else Inl OutOfBoundsDatetime)"

text \<open>
  The body of the \<^verbatim>\<open>try\<close> for one station, up to the rows it would append; \<open>Inl\<close> is
  the exception that the \<^verbatim>\<open>except\<close> clause catches.
\<close>

definition df_new :: "remote \<Rightarrow> df_row list \<Rightarrow> string \<Rightarrow> error + df_row list" where
  "df_new bmon df_exist stn =
     (case last_mo df_exist stn of
        Inl e \<Rightarrow> Inl e
      | Inr lm \<Rightarrow>
          (case plus_days lm 32 of
             Inl e \<Rightarrow> Inl e
           | Inr next_mo \<Rightarrow>
               (case dd_for_site bmon stn next_mo of
                  Inl e \<Rightarrow> Inl e
                | Inr dfm \<Rightarrow>
                    Inr (map (to_df_row stn) (filter (\<lambda>r. coverage r > MIN_COVERAGE) dfm)))))"

text \<open>What the script prints.\<close>

datatype line = Processing string | New_months nat | Newline | Exc_info error

text \<open>
  One turn of the loop over the stations; the state is the list \<^verbatim>\<open>new_dfs\<close> and what
  has been printed so far.
\<close>

definition loop_body ::
  "remote \<Rightarrow> df_row list \<Rightarrow> df_row list list \<times> line list \<Rightarrow> string
    \<Rightarrow> df_row list list \<times> line list" where
  "loop_body bmon df_exist st stn =
     (case df_new bmon df_exist stn of
        Inl e \<Rightarrow> (fst st, snd st @ [Processing stn, Exc_info e])
      | Inr new \<Rightarrow>
          if length new \<noteq> 0
          then (fst st @ [new], snd st @ [Processing stn, New_months (length new)])
          else (fst st, snd st @ [Processing stn, Newline]))"

definition run_loop :: "remote \<Rightarrow> df_row list \<Rightarrow> df_row list list \<times> line list" where
  "run_loop bmon df_exist =
     foldl (loop_body bmon df_exist) ([], []) (unique (map station df_exist))"

text \<open>
  \<^verbatim>\<open>sort_values(['station', 'month'])\<close>: a sort on two columns, which pandas does with
  a stable sort; strings compare by their characters' codes, timestamps by time.
\<close>

definition sort_key_of :: "df_row \<Rightarrow> string \<times> datetime" where
  "sort_key_of r = (station r, month r)"

definition sort_values :: "df_row list \<Rightarrow> df_row list" where
  "sort_values df = sort_key sort_key_of df"

text \<open>
  The whole run: the final table, which is written to both files, and what was printed.
\<close>

definition new_dfs :: "remote \<Rightarrow> df_row list \<Rightarrow> df_row list list" where
  "new_dfs bmon df_exist = fst (run_loop bmon df_exist)"

definition printed :: "remote \<Rightarrow> df_row list \<Rightarrow> line list" where
  "printed bmon df_exist = snd (run_loop bmon df_exist)"

definition df_final :: "remote \<Rightarrow> df_row list \<Rightarrow> df_row list" where
  "df_final bmon df_exist = sort_values (concat (df_exist # new_dfs bmon df_exist))"

section \<open>The vocabulary of the statements\<close>

text \<open>The reading \<open>r\<close> was taken in the calendar month \<open>m\<close> of the year \<open>y\<close>.\<close>

definition in_month :: "nat \<Rightarrow> nat \<Rightarrow> reading \<Rightarrow> bool" where
  "in_month y m r = (year_of (ts r) = y \<and> month_of (ts r) = m)"

text \<open>
  The remote source answers the request that \<^verbatim>\<open>dd_for_site\<close> sends for the station and
  the start date with a success status and the readings \<open>df\<close>, whose timestamps are dates
  within the range of a \<^verbatim>\<open>Timestamp\<close>.
\<close>

definition answers :: "remote \<Rightarrow> string \<Rightarrow> datetime \<Rightarrow> reading list \<Rightarrow> bool" where
  "answers bmon stn start_date df =
     (bmon (stn @ ''_temp'') (month_start start_date)
        = Reply \<lparr>status = Some ''success'', data = Some (Readings df)\<rparr>
      \<and> list_all (\<lambda>r. valid_dt (ts r) \<and> in_bounds (ts r)) df)"

text \<open>
  The row that \<^verbatim>\<open>dd_for_site\<close> computes for the month numbered \<open>k\<close>, and the numbers of
  the first and of the last month that has a reading.
\<close>

definition bin_row :: "reading list \<Rightarrow> nat \<Rightarrow> dfm_row" where
  "bin_row df k = dfm_of_bin (month_end k) (filter (\<lambda>r. mkey (ts r) = k) df)"

definition first_key :: "reading list \<Rightarrow> nat" where
  "first_key df = Min (set (map (\<lambda>r. mkey (ts r)) df))"

definition last_key :: "reading list \<Rightarrow> nat" where
  "last_key df = Max (set (map (\<lambda>r. mkey (ts r)) df))"

text \<open>
  Python's \<^verbatim>\<open><=\<close> on two floats: false as soon as one of them is NaN.
\<close>

definition le_nan :: "float_nan \<Rightarrow> float_nan \<Rightarrow> bool" where
  "le_nan a b = (case (a, b) of (Some x, Some y) \<Rightarrow> x \<le> y | _ \<Rightarrow> False)"

text \<open>
  The first instant of a calendar month, and the first instant of the month numbered \<open>k\<close>.
\<close>

definition first_of_month :: "datetime \<Rightarrow> bool" where
  "first_of_month d = (1 \<le> month_of d \<and> month_of d \<le> 12 \<and> day_of d = 1 \<and> tod_of d = 0)"

definition key_month :: "nat \<Rightarrow> datetime" where
  "key_month k = (k div 12, k mod 12 + 1, 1, 0)"

text \<open>
  What one station contributes to a run: the rows it stages (none when its turn raises)
  and the line printed after its name.
\<close>

definition staged :: "remote \<Rightarrow> df_row list \<Rightarrow> string \<Rightarrow> df_row list" where
  "staged bmon df_exist stn = (case df_new bmon df_exist stn of Inl e \<Rightarrow> [] | Inr new \<Rightarrow> new)"

definition outcome :: "remote \<Rightarrow> df_row list \<Rightarrow> string \<Rightarrow> line" where
  "outcome bmon df_exist stn =
     (case df_new bmon df_exist stn of
        Inl e \<Rightarrow> Exc_info e
      | Inr new \<Rightarrow> if length new \<noteq> 0 then New_months (length new) else Newline)"

text \<open>The lines that announce a station.\<close>

definition is_Processing :: "line \<Rightarrow> bool" where
  "is_Processing l = (case l of Processing s \<Rightarrow> True | _ \<Rightarrow> False)"

text \<open>The remote source returns no reading from before the requested start.\<close>

definition honours_start :: "remote \<Rightarrow> bool" where
  "honours_start bmon =
     (\<forall>sensor start resp rs. bmon sensor start = Reply resp \<and> data resp = Some (Readings rs)
        \<longrightarrow> (\<forall>r \<in> set rs. start \<le> ts r))"

text \<open>
  The remote source offers no new qualifying month for the table \<open>df\<close>: for every station
  of the table, asked from the month after the station's last month, the Aggregator
  returns no month whose coverage is above the threshold (or it raises).
\<close>

definition no_new_months :: "remote \<Rightarrow> df_row list \<Rightarrow> bool" where
  "no_new_months bmon df =
     (\<forall>stn \<in> set (map station df). \<forall>lm next_mo dfm.
        last_mo df stn = Inr lm \<and> plus_days lm 32 = Inr next_mo
          \<and> dd_for_site bmon stn next_mo = Inr dfm
        \<longrightarrow> (\<forall>r \<in> set dfm. \<not> coverage r > MIN_COVERAGE))"


section \<open>Example inputs\<close>

text \<open>The first \<open>n\<close> hourly readings of the month \<open>m\<close> of the year \<open>y\<close>, all at \<open>T\<close> degrees.\<close>

definition hourly :: "nat \<Rightarrow> nat \<Rightarrow> nat \<Rightarrow> real \<Rightarrow> reading list" where
  "hourly y m n T =
     map (\<lambda>h. \<lparr>ts = (y, m, 1 + h div 24, (h mod 24) * 3600000000), temp = T\<rparr>) [0..<n]"

text \<open>
  A remote source that holds a fixed list of readings for each sensor it knows, and
  answers with the readings from the requested start on.
\<close>

definition serving :: "(string \<Rightarrow> reading list option) \<Rightarrow> remote" where
  "serving db sensor start =
     (case db sensor of
        None \<Rightarrow> Reply \<lparr>status = Some ''error'', data = Some (Scalar ''unknown sensor'')\<rparr>
      | Some rs \<Rightarrow>
          Reply \<lparr>status = Some ''success'',
                 data = Some (Readings (filter (\<lambda>r. start \<le> ts r) rs))\<rparr>)"

text \<open>700 of the 744 hours of March 2018 at 50 degrees, 300 of the 720 hours of April at 40.\<close>

definition paed_db :: "string \<Rightarrow> reading list option" where
  "paed_db sensor =
     (if sensor = ''PAED_temp'' then Some (hourly 2018 3 700 50 @ hourly 2018 4 300 40)
      else None)"

text \<open>A sensor with one reading in April 2018, none in May and one in June.\<close>

definition gap_db :: "string \<Rightarrow> reading list option" where
  "gap_db sensor =
     (if sensor = ''PAED_temp''
      then Some [\<lparr>ts = (2018, 4, 5, 0), temp = 50\<rparr>, \<lparr>ts = (2018, 6, 7, 3600000000), temp = 62\<rparr>]
      else None)"



text \<open>
  A persisted table, not sorted: two stations with two months each and one station with
  a single month.
\<close>

definition ex_df :: "df_row list" where
  "ex_df =
     [\<lparr>month = (2018, 1, 1, 0), hdd60 = Some 1300, hdd65 = Some 1455, station = ''PAMR''\<rparr>,
      \<lparr>month = (2018, 1, 1, 0), hdd60 = Some 1400, hdd65 = Some 1555, station = ''PAED''\<rparr>,
      \<lparr>month = (2018, 2, 1, 0), hdd60 = Some 1257, hdd65 = Some 1397, station = ''PAED''\<rparr>,
      \<lparr>month = (2018, 2, 1, 0), hdd60 = Some 1100, hdd65 = Some 1240, station = ''PAXX''\<rparr>,
      \<lparr>month = (2018, 2, 1, 0), hdd60 = Some 1200, hdd65 = Some 1340, station = ''PAMR''\<rparr>]"



section \<open>Properties of the Aggregator\<close>

subsection \<open>Months and their numbers\<close>

lemma days_in_month_bounds: "28 \<le> days_in_month y m" "days_in_month y m \<le> 31"
  by (simp_all add: days_in_month_def)

lemma mkey_tuple:
  assumes "1 \<le> m" "m \<le> 12"
  shows "mkey (y, m, d, t) div 12 = y" and "mkey (y, m, d, t) mod 12 + 1 = m"
proof -
  from assms obtain j where j: "m = Suc j" "j < 12" by (cases m) auto
  then show "mkey (y, m, d, t) div 12 = y" "mkey (y, m, d, t) mod 12 + 1 = m"
    by (simp_all add: mkey_def year_of_def month_of_def)
qed

lemma mkey_valid:
  assumes "valid_dt t"
  shows "mkey t div 12 = year_of t" and "mkey t mod 12 + 1 = month_of t"
proof -
  obtain y m d tod where t: "t = (y, m, d, tod)" by (cases t)
  with assms have "1 \<le> m" "m \<le> 12" by (simp_all add: valid_dt_def month_of_def)
  from mkey_tuple[OF this] t
  show "mkey t div 12 = year_of t" "mkey t mod 12 + 1 = month_of t"
    by (simp_all add: year_of_def month_of_def)
qed

lemma key_of_month:
  assumes "1 \<le> m" "m \<le> 12"
  shows "(k div 12 = y \<and> k mod 12 + 1 = m) \<longleftrightarrow> k = mkey (y, m, 1, 0)"
proof
  assume a: "k div 12 = y \<and> k mod 12 + 1 = m"
  have "mkey (y, m, 1, 0) = y * 12 + (m - 1)" by (simp add: mkey_def year_of_def month_of_def)
  also have "\<dots> = k div 12 * 12 + k mod 12" using a by auto
  finally show "k = mkey (y, m, 1, 0)" by simp
next
  assume "k = mkey (y, m, 1, 0)"
  then show "k div 12 = y \<and> k mod 12 + 1 = m" using mkey_tuple[OF assms] by simp
qed

lemma mkey_in_month:
  assumes "valid_dt (ts r)"
  shows "in_month y m r \<longleftrightarrow> (1 \<le> m \<and> m \<le> 12 \<and> mkey (ts r) = mkey (y, m, 1, 0))"
proof
  assume "in_month y m r"
  with assms show "1 \<le> m \<and> m \<le> 12 \<and> mkey (ts r) = mkey (y, m, 1, 0)"
    by (auto simp: in_month_def valid_dt_def mkey_def year_of_def month_of_def)
next
  assume a: "1 \<le> m \<and> m \<le> 12 \<and> mkey (ts r) = mkey (y, m, 1, 0)"
  then have "mkey (ts r) div 12 = y \<and> mkey (ts r) mod 12 + 1 = m"
    using key_of_month[of m "mkey (ts r)" y] by simp
  with mkey_valid[OF assms] show "in_month y m r" by (simp add: in_month_def)
qed

lemma monthly_eq:
  "monthly df = (if df = [] then [] else map (bin_row df) [first_key df ..< Suc (last_key df)])"
  by (simp add: monthly_def resample_def bin_row_def first_key_def last_key_def Let_def)

lemma month_bin_row: "month (bin_row df k) = (k div 12, k mod 12 + 1, 1, 0)"
  by (simp add: bin_row_def dfm_of_bin_def month_end_def year_of_def month_of_def Let_def)

lemma coverage_bin_row:
  "coverage (bin_row df k) =
     real (length (filter (\<lambda>r. mkey (ts r) = k) df)) / real (days_in_month (k div 12) (k mod 12 + 1) * 24)"
  by (simp add: bin_row_def dfm_of_bin_def month_end_def day_of_def Let_def)

lemma filter_eq_upt:
  "filter (\<lambda>x. x = k) [lo ..< hi] = (if lo \<le> k \<and> k < hi then [k] else [])"
  by (induction hi) auto

lemma key_bounds:
  assumes "r \<in> set df"
  shows "first_key df \<le> mkey (ts r)" and "mkey (ts r) \<le> last_key df"
  using assms by (auto simp: first_key_def last_key_def)

lemma filter_in_month:
  assumes "list_all (\<lambda>r. valid_dt (ts r)) df" "1 \<le> m" "m \<le> 12"
  shows "filter (\<lambda>r. mkey (ts r) = mkey (y, m, 1, 0)) df = filter (in_month y m) df"
  using assms by (intro filter_cong refl) (auto simp: mkey_in_month list_all_iff)

lemma month_row_unique:
  assumes valid: "list_all (\<lambda>r. valid_dt (ts r)) df"
    and ne: "filter (in_month y m) df \<noteq> []"
  shows "filter (\<lambda>row. month row = (y, m, 1, 0)) (monthly df) = [bin_row df (mkey (y, m, 1, 0))]"
    and "filter (\<lambda>r. mkey (ts r) = mkey (y, m, 1, 0)) df = filter (in_month y m) df"
    and "1 \<le> m" and "m \<le> 12"
proof -
  from ne obtain r where r: "r \<in> set df" "in_month y m r"
    by (metis filter_False)
  from valid r have vr: "valid_dt (ts r)" by (simp add: list_all_iff)
  with r show m: "1 \<le> m" "m \<le> 12" by (auto simp: in_month_def valid_dt_def)
  from vr r m have kr: "mkey (ts r) = mkey (y, m, 1, 0)" by (simp add: mkey_in_month)
  from r have "df \<noteq> []" by auto
  moreover have "filter (\<lambda>row. month row = (y, m, 1, 0)) (map (bin_row df) ks)
      = map (bin_row df) (filter (\<lambda>k. k = mkey (y, m, 1, 0)) ks)" for ks
    using key_of_month[OF m, of _ y] by (simp add: filter_map comp_def month_bin_row)
  moreover have "first_key df \<le> mkey (y, m, 1, 0)" "mkey (y, m, 1, 0) \<le> last_key df"
    using key_bounds[OF r(1)] kr by simp_all
  ultimately show "filter (\<lambda>row. month row = (y, m, 1, 0)) (monthly df) = [bin_row df (mkey (y, m, 1, 0))]"
    by (simp only: monthly_eq filter_eq_upt if_False) simp
  show "filter (\<lambda>r. mkey (ts r) = mkey (y, m, 1, 0)) df = filter (in_month y m) df"
    using filter_in_month[OF valid m] .
qed

lemma to_datetime_ok:
  "list_all (\<lambda>r. valid_dt (ts r) \<and> in_bounds (ts r)) df \<Longrightarrow> to_datetime df = Inr df"
  by (induction df) simp_all

lemma to_datetime_Inr:
  "to_datetime df = Inr df' \<Longrightarrow>
     df' = df \<and> list_all (\<lambda>r. valid_dt (ts r) \<and> in_bounds (ts r)) df"
proof (induction df arbitrary: df')
  case Nil
  then show ?case by simp
next
  case (Cons r rs)
  from Cons.prems obtain df'' where t: "to_datetime rs = Inr df''" and d: "df' = r # df''"
    and v: "valid_dt (ts r)" "in_bounds (ts r)"
    by (cases "to_datetime rs") (simp_all split: if_splits)
  from Cons.IH[OF t] d v show ?case by simp
qed

lemma to_datetime_Inr_iff:
  "to_datetime df = Inr df' \<longleftrightarrow>
     df' = df \<and> list_all (\<lambda>r. valid_dt (ts r) \<and> in_bounds (ts r)) df"
  using to_datetime_ok[of df] to_datetime_Inr[of df df'] by blast


lemma answers_valid:
  assumes "answers bmon stn start_date df"
  shows "list_all (\<lambda>r. valid_dt (ts r)) df"
  using assms by (simp add: answers_def list_all_iff)

lemma dd_for_site_answers:
  assumes "answers bmon stn start_date df"
  shows "dd_for_site bmon stn start_date = Inr (monthly df)"
proof -
  from assms have "to_datetime df = Inr df" by (simp add: answers_def to_datetime_Inr_iff)
  with assms show ?thesis by (simp add: answers_def dd_for_site_def dfm_of_reply_def)
qed

subsection \<open>The example source\<close>

lemmas dt_defs = year_of_def month_of_def day_of_def tod_of_def

lemma hourly_valid:
  assumes "1 \<le> m" "m \<le> 12" "n \<le> days_in_month y m * 24" "1677 < y" "y < 2262"
  shows "list_all (\<lambda>r. valid_dt (ts r) \<and> in_bounds (ts r)) (hourly y m n T)"
proof -
  have "valid_dt (y, m, 1 + h div 24, (h mod 24) * 3600000000)" if "h < n" for h
  proof -
    from that assms(3) have "h div 24 < days_in_month y m" by (simp add: less_mult_imp_div_less)
    moreover have "h mod 24 < 24" by simp
    then have "(h mod 24) * 3600000000 < 24 * 3600000000" by (rule mult_strict_right_mono) simp
    ultimately show ?thesis using assms(1,2) by (simp add: valid_dt_def dt_defs)
  qed
  moreover have "in_bounds (y, m, d, t)" for d t
    using assms(4,5) by (simp add: in_bounds_def)
  ultimately show ?thesis by (simp add: hourly_def list_all_iff)
qed

lemma paed_answers:
  "answers (serving paed_db) ''PAED'' (2018, 3, 5, 0) (hourly 2018 3 700 50 @ hourly 2018 4 300 40)"
proof -
  have "list_all (\<lambda>r. valid_dt (ts r) \<and> in_bounds (ts r)) (hourly 2018 3 700 50)"
    by (rule hourly_valid) (simp_all add: days_in_month_def)
  moreover have "list_all (\<lambda>r. valid_dt (ts r) \<and> in_bounds (ts r)) (hourly 2018 4 300 40)"
    by (rule hourly_valid) (simp_all add: days_in_month_def)
  ultimately show ?thesis
    by (simp add: answers_def serving_def paed_db_def month_start_def dt_defs hourly_def)
qed

subsection \<open>Coverage\<close>

text \<open>
  Claim C1. When the remote source answers with the readings \<open>df\<close>, of which \<open>H \<ge> 1\<close> were
  taken in the calendar month \<open>m\<close> of the year \<open>y\<close>, the table that \<^verbatim>\<open>dd_for_site\<close> returns
  has exactly one row for that month, and its coverage is \<open>H\<close> divided by the hours of the
  month, 24 times its number of days.
\<close>

theorem coverage_exact:
  assumes "answers bmon stn start_date df"
    and "H = length (filter (in_month y m) df)" and "1 \<le> H"
  shows "\<exists>dfm row. dd_for_site bmon stn start_date = Inr dfm
           \<and> filter (\<lambda>r. month r = (y, m, 1, 0)) dfm = [row]
           \<and> coverage row = real H / real (days_in_month y m * 24)"
proof -
  from assms(1) have valid: "list_all (\<lambda>r. valid_dt (ts r)) df" by (rule answers_valid)
  from assms(2,3) have ne: "filter (in_month y m) df \<noteq> []" by auto
  note u = month_row_unique[OF valid ne]
  have "coverage (bin_row df (mkey (y, m, 1, 0))) = real H / real (days_in_month y m * 24)"
    unfolding coverage_bin_row u(2) mkey_tuple[OF u(3,4)] assms(2) ..
  with u(1) dd_for_site_answers[OF assms(1)] show ?thesis by blast
qed

theorem coverage_exact_witness:
  "answers (serving paed_db) ''PAED'' (2018, 3, 5, 0) (hourly 2018 3 700 50 @ hourly 2018 4 300 40)
   \<and> (700::nat) = length (filter (in_month 2018 3) (hourly 2018 3 700 50 @ hourly 2018 4 300 40))
   \<and> (\<exists>dfm row. dd_for_site (serving paed_db) ''PAED'' (2018, 3, 5, 0) = Inr dfm
           \<and> filter (\<lambda>r. month r = (2018, 3, 1, 0)) dfm = [row]
           \<and> coverage row = 700 / 744)"
proof -
  have H: "(700::nat) = length (filter (in_month 2018 3) (hourly 2018 3 700 50 @ hourly 2018 4 300 40))"
    by (simp add: hourly_def in_month_def dt_defs)
  from coverage_exact[OF paed_answers H] paed_answers H show ?thesis
    by (simp add: days_in_month_def)
qed

subsection \<open>Degree-days\<close>

text \<open>
  The monthly values are computed on the reals here, where the code computes a mean of
  doubles: what is proved of them is their sign and their order, which the rounding of
  the sums and of the quotients keeps, and not their exact value.
\<close>

lemma hdd_hour_ordered: "0 \<le> hdd60_hour x" "hdd60_hour x \<le> hdd65_hour x"
  by (simp_all add: hdd60_hour_def hdd65_hour_def)

lemma hdd60_bin_row:
  "hdd60 (bin_row df k) =
     map_option (\<lambda>v. v * real (days_in_month (k div 12) (k mod 12 + 1) * 24))
       (mean (map (\<lambda>r. hdd60_hour (temp r)) (filter (\<lambda>r. mkey (ts r) = k) df)))"
  by (simp add: bin_row_def dfm_of_bin_def month_end_def day_of_def Let_def)

lemma hdd65_bin_row:
  "hdd65 (bin_row df k) =
     map_option (\<lambda>v. v * real (days_in_month (k div 12) (k mod 12 + 1) * 24))
       (mean (map (\<lambda>r. hdd65_hour (temp r)) (filter (\<lambda>r. mkey (ts r) = k) df)))"
  by (simp add: bin_row_def dfm_of_bin_def month_end_def day_of_def Let_def)

lemmas eval_defs = dd_for_site_def dfm_of_reply_def monthly_def resample_def mkey_def
  month_end_def dfm_of_bin_def days_in_month_def is_leap_def mean_def hdd60_hour_def hdd65_hour_def
  month_start_def valid_dt_def in_bounds_def dt_defs serving_def

lemma gap_answers:
  "answers (serving gap_db) ''PAED'' (2018, 4, 2, 0)
     [\<lparr>ts = (2018, 4, 5, 0), temp = 50\<rparr>, \<lparr>ts = (2018, 6, 7, 3600000000), temp = 62\<rparr>]"
  by (simp add: answers_def serving_def gap_db_def month_start_def valid_dt_def in_bounds_def
      dt_defs days_in_month_def)

lemma monthly_row:
  assumes "row \<in> set (monthly df)"
  shows "\<exists>k. row = bin_row df k"
  using assms by (auto simp: monthly_eq split: if_splits)

lemma filter_key_in_month:
  assumes "list_all (\<lambda>r. valid_dt (ts r)) df"
  shows "filter (\<lambda>r. mkey (ts r) = k) df = filter (in_month (k div 12) (k mod 12 + 1)) df"
proof (intro filter_cong refl)
  fix r assume "r \<in> set df"
  with assms have v: "valid_dt (ts r)" by (simp add: list_all_iff)
  have m: "1 \<le> k mod 12 + 1" "k mod 12 + 1 \<le> 12" by simp_all
  have "mkey (k div 12, k mod 12 + 1, 1, 0) = k" using key_of_month[OF m, of k "k div 12"] by simp
  then show "(mkey (ts r) = k) = in_month (k div 12) (k mod 12 + 1) r"
    unfolding mkey_in_month[OF v, of "k div 12" "k mod 12 + 1"] using m by simp
qed

lemma bin_row_ordered:
  fixes df k
  defines "g \<equiv> filter (\<lambda>r. mkey (ts r) = k) df"
  shows "if g = [] then hdd60 (bin_row df k) = None \<and> hdd65 (bin_row df k) = None
         else le_nan (Some 0) (hdd60 (bin_row df k)) \<and> le_nan (hdd60 (bin_row df k)) (hdd65 (bin_row df k))"
proof (cases "g = []")
  case True
  then show ?thesis by (simp add: hdd60_bin_row hdd65_bin_row mean_def g_def)
next
  case False
  let ?s60 = "sum_list (map (\<lambda>r. hdd60_hour (temp r)) g)"
  let ?s65 = "sum_list (map (\<lambda>r. hdd65_hour (temp r)) g)"
  have "0 \<le> ?s60" by (rule sum_list_nonneg) (auto simp: hdd_hour_ordered)
  moreover have "?s60 \<le> ?s65" by (rule sum_list_mono) (simp add: hdd_hour_ordered)
  moreover from False have "0 < real (length g)" by simp
  ultimately have "0 \<le> ?s60 / real (length g)" "?s60 / real (length g) \<le> ?s65 / real (length g)"
    by (simp_all add: divide_right_mono)
  then have "0 \<le> ?s60 / real (length g) * real (days_in_month (k div 12) (k mod 12 + 1) * 24)"
    "?s60 / real (length g) * real (days_in_month (k div 12) (k mod 12 + 1) * 24)
      \<le> ?s65 / real (length g) * real (days_in_month (k div 12) (k mod 12 + 1) * 24)"
    by (intro mult_nonneg_nonneg mult_right_mono; simp)+
  with False show ?thesis
    unfolding hdd60_bin_row hdd65_bin_row g_def[symmetric] by (simp add: mean_def le_nan_def)
qed

text \<open>
  Claim C10, as amended. In a table that \<^verbatim>\<open>dd_for_site\<close> returns, the row of a month with
  at least one reading has \<open>0 \<le> hdd60\<close> and \<open>hdd60 \<le> hdd65\<close>; the row of a month without
  a reading (a gap between the first and the last month with data) has NaN in both
  columns, which satisfies neither inequality.
\<close>

theorem degree_days_ordered:
  assumes "answers bmon stn start_date df"
  shows "\<exists>dfm. dd_for_site bmon stn start_date = Inr dfm
           \<and> (\<forall>row \<in> set dfm.
                 if filter (in_month (year_of (month row)) (month_of (month row))) df = []
                 then hdd60 row = None \<and> hdd65 row = None
                 else le_nan (Some 0) (hdd60 row) \<and> le_nan (hdd60 row) (hdd65 row))"
proof -
  from assms have valid: "list_all (\<lambda>r. valid_dt (ts r)) df" by (rule answers_valid)
  have "if filter (in_month (year_of (month row)) (month_of (month row))) df = []
        then hdd60 row = None \<and> hdd65 row = None
        else le_nan (Some 0) (hdd60 row) \<and> le_nan (hdd60 row) (hdd65 row)"
    if "row \<in> set (monthly df)" for row
  proof -
    from monthly_row[OF that] obtain k where k: "row = bin_row df k" ..
    have "filter (in_month (year_of (month row)) (month_of (month row))) df
        = filter (\<lambda>r. mkey (ts r) = k) df"
      unfolding filter_key_in_month[OF valid] k month_bin_row by (simp add: dt_defs)
    with bin_row_ordered[where df=df and k=k] k show ?thesis by simp
  qed
  with dd_for_site_answers[OF assms] show ?thesis by blast
qed

theorem degree_days_ordered_witness:
  "answers (serving gap_db) ''PAED'' (2018, 4, 2, 0)
     [\<lparr>ts = (2018, 4, 5, 0), temp = 50\<rparr>, \<lparr>ts = (2018, 6, 7, 3600000000), temp = 62\<rparr>]
   \<and> dd_for_site (serving gap_db) ''PAED'' (2018, 4, 2, 0) =
     Inr [\<lparr>month = (2018, 4, 1, 0), hdd60 = Some 300, hdd65 = Some 450, coverage = 1 / 720\<rparr>,
          \<lparr>month = (2018, 5, 1, 0), hdd60 = None, hdd65 = None, coverage = 0\<rparr>,
          \<lparr>month = (2018, 6, 1, 0), hdd60 = Some 0, hdd65 = Some 90, coverage = 1 / 720\<rparr>]
   \<and> le_nan (Some 0) (Some 300) \<and> le_nan (Some 300) (Some 450)"
proof -
  let ?apr = "\<lparr>month = (2018, 4, 1, 0), hdd60 = Some 300, hdd65 = Some 450, coverage = 1 / 720\<rparr>"
  have ev: "dd_for_site (serving gap_db) ''PAED'' (2018, 4, 2, 0) =
     Inr [?apr,
          \<lparr>month = (2018, 5, 1, 0), hdd60 = None, hdd65 = None, coverage = 0\<rparr>,
          \<lparr>month = (2018, 6, 1, 0), hdd60 = Some 0, hdd65 = Some 90, coverage = 1 / 720\<rparr>]"
    by (simp add: eval_defs gap_db_def)
  from degree_days_ordered[OF gap_answers]
  obtain dfm where d: "dd_for_site (serving gap_db) ''PAED'' (2018, 4, 2, 0) = Inr dfm"
    and rows: "\<forall>row \<in> set dfm.
         if filter (in_month (year_of (month row)) (month_of (month row)))
              [\<lparr>ts = (2018, 4, 5, 0), temp = 50\<rparr>, \<lparr>ts = (2018, 6, 7, 3600000000), temp = 62\<rparr>] = []
         then hdd60 row = None \<and> hdd65 row = None
         else le_nan (Some 0) (hdd60 row) \<and> le_nan (hdd60 row) (hdd65 row)"
    by blast
  from d ev have "?apr \<in> set dfm" by auto
  from bspec[OF rows this]
  have "le_nan (Some 0) (Some 300) \<and> le_nan (Some 300) (Some 450)"
    by (simp add: in_month_def dt_defs)
  with gap_answers ev show ?thesis by blast
qed

text \<open>
  The claim C10 as it is stated, for every month of the result, fails: with a reading in
  April and one in June, the row of May has NaN for \<open>hdd60\<close>, and \<open>0 \<le> NaN\<close> is false.
\<close>

theorem nan_counterexample:
  "dd_for_site (serving gap_db) ''PAED'' (2018, 4, 2, 0) =
     Inr [\<lparr>month = (2018, 4, 1, 0), hdd60 = Some 300, hdd65 = Some 450, coverage = 1 / 720\<rparr>,
          \<lparr>month = (2018, 5, 1, 0), hdd60 = None, hdd65 = None, coverage = 0\<rparr>,
          \<lparr>month = (2018, 6, 1, 0), hdd60 = Some 0, hdd65 = Some 90, coverage = 1 / 720\<rparr>]
   \<and> \<not> le_nan (Some 0) (hdd60 \<lparr>month = (2018, 5, 1, 0), hdd60 = None, hdd65 = None, coverage = 0\<rparr>)"
  by (simp add: eval_defs gap_db_def le_nan_def)

subsection \<open>The months of the table\<close>

lemma month_bin_row_key: "month (bin_row df k) = key_month k"
  by (simp add: month_bin_row key_month_def)

lemma key_month_strict_mono:
  assumes "k < k'"
  shows "key_month k < key_month k'"
proof -
  have "k div 12 \<le> k' div 12" using assms by (simp add: div_le_mono)
  moreover have "k mod 12 < k' mod 12" if "k div 12 = k' div 12"
  proof -
    have "k = k div 12 * 12 + k mod 12" "k' = k' div 12 * 12 + k' mod 12" by simp_all
    with that assms show ?thesis by linarith
  qed
  ultimately show ?thesis
    by (cases "k div 12 = k' div 12") (simp_all add: key_month_def)
qed

lemma key_month_le_iff: "key_month k \<le> key_month k' \<longleftrightarrow> k \<le> k'"
proof
  assume "key_month k \<le> key_month k'"
  then show "k \<le> k'" using key_month_strict_mono[of k' k] by (cases "k' < k") auto
next
  assume "k \<le> k'"
  then show "key_month k \<le> key_month k'"
    using key_month_strict_mono[of k k'] by (cases "k = k'") auto
qed

lemma key_month_mkey:
  assumes "valid_dt t"
  shows "key_month (mkey t) = month_start t"
  using mkey_valid[OF assms] by (simp add: key_month_def month_start_def)

lemma first_of_month_key: "first_of_month d \<longleftrightarrow> (\<exists>k. d = key_month k)"
proof
  assume a: "first_of_month d"
  obtain y m dd t where d: "d = (y, m, dd, t)" by (cases d)
  with a have m: "1 \<le> m" "m \<le> 12" and r: "dd = 1" "t = 0" by (simp_all add: first_of_month_def dt_defs)
  from mkey_tuple[OF m, of y 1 0] d r have "d = key_month (mkey (y, m, 1, 0))"
    by (simp add: key_month_def)
  then show "\<exists>k. d = key_month k" ..
next
  assume "\<exists>k. d = key_month k"
  then show "first_of_month d" by (auto simp: first_of_month_def key_month_def dt_defs)
qed

lemma key_month_range:
  "key_month ` {lo..hi} = {d. first_of_month d \<and> key_month lo \<le> d \<and> d \<le> key_month hi}"
  by (auto simp: first_of_month_key key_month_le_iff)

lemma month_start_extremes:
  assumes valid: "list_all (\<lambda>r. valid_dt (ts r)) df" and ne: "df \<noteq> []"
  shows "Min (set (map (\<lambda>r. month_start (ts r)) df)) = key_month (first_key df)"
    and "Max (set (map (\<lambda>r. month_start (ts r)) df)) = key_month (last_key df)"
proof -
  let ?K = "set (map (\<lambda>r. mkey (ts r)) df)"
  have eq: "set (map (\<lambda>r. month_start (ts r)) df) = key_month ` ?K"
    using valid by (auto simp: list_all_iff key_month_mkey image_iff)
  have mono: "mono key_month" by (rule monoI) (simp add: key_month_le_iff)
  have fin: "finite ?K" "?K \<noteq> {}" using ne by simp_all
  show "Min (set (map (\<lambda>r. month_start (ts r)) df)) = key_month (first_key df)"
    unfolding eq first_key_def using mono_Min_commute[OF mono fin] by simp
  show "Max (set (map (\<lambda>r. month_start (ts r)) df)) = key_month (last_key df)"
    unfolding eq last_key_def using mono_Max_commute[OF mono fin] by simp
qed

lemma months_monthly:
  "map month (monthly df) = (if df = [] then [] else map key_month [first_key df ..< Suc (last_key df)])"
  by (simp add: monthly_eq month_bin_row_key comp_def)

lemma first_le_last_key: "df \<noteq> [] \<Longrightarrow> first_key df \<le> last_key df"
  by (cases df) (auto simp: first_key_def last_key_def intro: order_trans[OF Min_le Max_ge])

text \<open>
  Claim C9, as amended. The index of the table that \<^verbatim>\<open>dd_for_site\<close> returns holds, in
  ascending order and each once, the first day of every calendar month from the month of
  the earliest reading returned to the month of the latest reading returned, the months in
  between without a reading included; there is no entry before the first or after the last
  month with data, and with no reading the table is empty. The range starts at the month of
  the start date only if the remote source has a reading in that month.
\<close>

theorem index_months:
  assumes "answers bmon stn start_date df"
  shows "\<exists>dfm. dd_for_site bmon stn start_date = Inr dfm
           \<and> sorted_wrt (<) (map month dfm)
           \<and> (df = [] \<longrightarrow> dfm = [])
           \<and> (df \<noteq> [] \<longrightarrow>
                set (map month dfm) =
                  {d. first_of_month d
                      \<and> Min (set (map (\<lambda>r. month_start (ts r)) df)) \<le> d
                      \<and> d \<le> Max (set (map (\<lambda>r. month_start (ts r)) df))})"
proof -
  from assms have valid: "list_all (\<lambda>r. valid_dt (ts r)) df" by (rule answers_valid)
  have "sorted_wrt (\<lambda>a b. key_month a < key_month b) [lo ..< hi]" for lo hi
    by (rule sorted_wrt_mono_rel[of _ "(<)"]) (simp_all add: key_month_strict_mono)
  then have s: "sorted_wrt (<) (map month (monthly df))"
    by (simp add: months_monthly sorted_wrt_map del: upt_Suc)
  have e: "monthly df = []" if "df = []" using that by (simp add: monthly_eq)
  have r: "set (map month (monthly df)) =
      {d. first_of_month d
          \<and> Min (set (map (\<lambda>r. month_start (ts r)) df)) \<le> d
          \<and> d \<le> Max (set (map (\<lambda>r. month_start (ts r)) df))}" if ne: "df \<noteq> []"
  proof -
    have "set (map month (monthly df)) = key_month ` {first_key df .. last_key df}"
      using ne by (simp add: months_monthly atLeastLessThanSuc_atLeastAtMost del: upt_Suc)
    then show ?thesis
      unfolding month_start_extremes[OF valid ne] key_month_range .
  qed
  from s e r dd_for_site_answers[OF assms] show ?thesis by blast
qed

lemma gap_answers_march:
  "answers (serving gap_db) ''PAED'' (2018, 3, 15, 0)
     [\<lparr>ts = (2018, 4, 5, 0), temp = 50\<rparr>, \<lparr>ts = (2018, 6, 7, 3600000000), temp = 62\<rparr>]"
  by (simp add: answers_def serving_def gap_db_def month_start_def valid_dt_def in_bounds_def
      dt_defs days_in_month_def)

theorem index_months_witness:
  "answers (serving gap_db) ''PAED'' (2018, 3, 15, 0)
     [\<lparr>ts = (2018, 4, 5, 0), temp = 50\<rparr>, \<lparr>ts = (2018, 6, 7, 3600000000), temp = 62\<rparr>]
   \<and> (\<exists>dfm. dd_for_site (serving gap_db) ''PAED'' (2018, 3, 15, 0) = Inr dfm
          \<and> sorted_wrt (<) (map month dfm)
          \<and> set (map month dfm) =
               {d. first_of_month d \<and> (2018, 4, 1, 0) \<le> d \<and> d \<le> (2018, 6, 1, 0)})"
  using index_months[OF gap_answers_march] gap_answers_march
  by (simp add: month_start_def dt_defs)

text \<open>
  The claim C9 as it is stated fails: asked from March 2018 on, a source whose readings
  are one in April and one in June gives a table without March, the month of the start
  date, and with May, a month without any reading.
\<close>

theorem index_counterexample:
  "month_start (2018, 3, 15, 0) = (2018, 3, 1, 0)
   \<and> filter (in_month 2018 5)
        [\<lparr>ts = (2018, 4, 5, 0), temp = 50\<rparr>, \<lparr>ts = (2018, 6, 7, 3600000000), temp = 62\<rparr>] = []
   \<and> dd_for_site (serving gap_db) ''PAED'' (2018, 3, 15, 0) =
     Inr [\<lparr>month = (2018, 4, 1, 0), hdd60 = Some 300, hdd65 = Some 450, coverage = 1 / 720\<rparr>,
          \<lparr>month = (2018, 5, 1, 0), hdd60 = None, hdd65 = None, coverage = 0\<rparr>,
          \<lparr>month = (2018, 6, 1, 0), hdd60 = Some 0, hdd65 = Some 90, coverage = 1 / 720\<rparr>]"
  by (simp add: eval_defs gap_db_def in_month_def)

subsection \<open>Errors of the Aggregator\<close>

lemma dd_for_site_Inr_iff:
  "dd_for_site bmon stn start_date = Inr dfm
     \<longleftrightarrow> (\<exists>rs. answers bmon stn start_date rs \<and> dfm = monthly rs)"
proof
  assume "dd_for_site bmon stn start_date = Inr dfm"
  then obtain resp rs df where r: "bmon (stn @ ''_temp'') (month_start start_date) = Reply resp"
    "status resp = Some ''success''" "data resp = Some (Readings rs)"
    "to_datetime rs = Inr df" "dfm = monthly df"
    by (auto simp: dd_for_site_def dfm_of_reply_def
        split: reply.splits option.splits json_data.splits if_splits sum.splits)
  from r(4) have v: "df = rs" "list_all (\<lambda>r. valid_dt (ts r) \<and> in_bounds (ts r)) rs"
    by (simp_all add: to_datetime_Inr_iff)
  from r(2,3) have "resp = \<lparr>status = Some ''success'', data = Some (Readings rs)\<rparr>"
    by (cases resp) simp
  with r v show "\<exists>rs. answers bmon stn start_date rs \<and> dfm = monthly rs"
    by (auto simp: answers_def)
next
  assume "\<exists>rs. answers bmon stn start_date rs \<and> dfm = monthly rs"
  then show "dd_for_site bmon stn start_date = Inr dfm"
    by (auto simp: dd_for_site_answers)
qed






section \<open>Properties of the Merger\<close>

subsection \<open>The date in the following month\<close>

lemma add_days_add: "add_days (a + b) dt = add_days b (add_days a dt)"
  by (induction b) simp_all

lemma add_days_within:
  "d + n \<le> days_in_month y m \<Longrightarrow> add_days n (y, m, d, t) = (y, m, d + n, t)"
  by (induction n) simp_all

lemma add_days_32_first:
  assumes "1 \<le> m" and "m \<le> 12"
  shows "add_days 32 (y, m, 1, t) =
           (if m = 12 then (y + 1, 1, 33 - days_in_month y m, t)
            else (y, m + 1, 33 - days_in_month y m, t))
         \<and> month_start (add_days 32 (y, m, 1, t)) =
           (if m = 12 then (y + 1, 1, 1, 0) else (y, m + 1, 1, 0))"
proof -
  define D where "D = days_in_month y m"
  have D: "28 \<le> D" "D \<le> 31" by (simp_all add: D_def days_in_month_bounds)
  define nx where "nx = (if m = 12 then (y + 1, 1::nat) else (y, m + 1))"
  have 1: "add_days (D - 1) (y, m, 1, t) = (y, m, D, t)"
    using add_days_within[of 1 "D - 1" y m t] D by (simp add: D_def)
  have 2: "add_days 1 (y, m, D, t) = (fst nx, snd nx, 1, t)"
    using assms by (simp add: D_def nx_def)
  have 3: "add_days (32 - D) (fst nx, snd nx, 1, t) = (fst nx, snd nx, 1 + (32 - D), t)"
    by (rule add_days_within) (use D days_in_month_bounds(1)[of "fst nx" "snd nx"] in simp)
  have "32 = (D - 1) + 1 + (32 - D)" using D by simp
  then have "add_days 32 (y, m, 1, t) = add_days (32 - D) (add_days 1 (add_days (D - 1) (y, m, 1, t)))"
    by (metis add_days_add)
  then have "add_days 32 (y, m, 1, t) = (fst nx, snd nx, 33 - D, t)"
    unfolding 1 2 3 using D by simp
  then show ?thesis by (simp add: nx_def D_def month_start_def dt_defs)
qed





subsection \<open>The loop over the stations\<close>

lemma set_unique_from: "set (unique_from seen xs) = set xs - set seen"
  by (induction seen xs rule: unique_from.induct) auto

lemma distinct_unique_from: "distinct (unique_from seen xs)"
  by (induction seen xs rule: unique_from.induct) (auto simp: set_unique_from)

lemma set_unique: "set (unique xs) = set xs"
  by (simp add: unique_def set_unique_from)

lemma distinct_unique: "distinct (unique xs)"
  by (simp add: unique_def distinct_unique_from)

lemma loop_body_eq:
  "loop_body bmon df st stn =
     (fst st @ filter (\<lambda>l. l \<noteq> []) [staged bmon df stn],
      snd st @ [Processing stn, outcome bmon df stn])"
  by (simp add: loop_body_def staged_def outcome_def split: sum.splits)

lemma foldl_loop_body:
  "foldl (loop_body bmon df) st stns =
     (fst st @ filter (\<lambda>l. l \<noteq> []) (map (staged bmon df) stns),
      snd st @ concat (map (\<lambda>stn. [Processing stn, outcome bmon df stn]) stns))"
proof (induction stns arbitrary: st)
  case Nil
  then show ?case by simp
next
  case (Cons stn stns)
  show ?case unfolding foldl_Cons Cons.IH by (simp add: loop_body_eq)
qed

lemma new_dfs_eq:
  "new_dfs bmon df = filter (\<lambda>l. l \<noteq> []) (map (staged bmon df) (unique (map station df)))"
  by (simp add: new_dfs_def run_loop_def foldl_loop_body)

lemma printed_eq:
  "printed bmon df =
     concat (map (\<lambda>stn. [Processing stn, outcome bmon df stn]) (unique (map station df)))"
  by (simp add: printed_def run_loop_def foldl_loop_body)

lemma concat_filter_nonempty: "concat (filter (\<lambda>l. l \<noteq> []) xss) = concat xss"
  by (induction xss) auto

lemma concat_new_dfs:
  "concat (new_dfs bmon df) = concat (map (staged bmon df) (unique (map station df)))"
  by (simp add: new_dfs_eq concat_filter_nonempty)

lemma station_to_df_row: "station (to_df_row stn r) = stn"
  by (simp add: to_df_row_def)

lemma month_to_df_row: "month (to_df_row stn r) = month r"
  by (simp add: to_df_row_def)

lemma plus_days_Inr: "plus_days dt n = Inr r \<longleftrightarrow> r = add_days n dt \<and> in_bounds r"
  by (auto simp: plus_days_def Let_def)

lemma df_new_Inr:
  assumes "df_new bmon df stn = Inr new"
  obtains lm dfm where "last_mo df stn = Inr lm"
    and "plus_days lm 32 = Inr (add_days 32 lm)"
    and "dd_for_site bmon stn (add_days 32 lm) = Inr dfm"
    and "new = map (to_df_row stn) (filter (\<lambda>r. coverage r > MIN_COVERAGE) dfm)"
proof -
  from assms obtain lm where lm: "last_mo df stn = Inr lm"
    by (cases "last_mo df stn") (simp_all add: df_new_def)
  from assms lm obtain next_mo where p: "plus_days lm 32 = Inr next_mo"
    by (cases "plus_days lm 32") (simp_all add: df_new_def)
  then have n: "next_mo = add_days 32 lm" by (simp add: plus_days_Inr)
  from assms lm p obtain dfm where d: "dd_for_site bmon stn next_mo = Inr dfm"
    by (cases "dd_for_site bmon stn next_mo") (simp_all add: df_new_def)
  from assms lm p d have "new = map (to_df_row stn) (filter (\<lambda>r. coverage r > MIN_COVERAGE) dfm)"
    by (simp add: df_new_def)
  with lm p d show ?thesis unfolding n by (rule that)
qed

lemma staged_station:
  assumes "r \<in> set (staged bmon df stn)"
  shows "station r = stn"
proof (cases "df_new bmon df stn")
  case (Inl e)
  with assms show ?thesis by (simp add: staged_def)
next
  case (Inr new)
  with assms have "r \<in> set new" by (simp add: staged_def)
  moreover obtain dfm where "new = map (to_df_row stn) (filter (\<lambda>r. coverage r > MIN_COVERAGE) dfm)"
    by (rule df_new_Inr[OF Inr])
  ultimately show ?thesis by (auto simp: station_to_df_row)
qed

lemma set_concat_new_dfs:
  "set (concat (new_dfs bmon df)) = (\<Union>stn \<in> set (map station df). set (staged bmon df stn))"
  by (simp add: concat_new_dfs set_unique)

lemma df_final_eq:
  "df_final bmon df = sort_values (df @ concat (new_dfs bmon df))"
  by (simp add: df_final_def)

lemma set_df_final:
  "set (df_final bmon df) = set df \<union> set (concat (new_dfs bmon df))"
  by (simp add: df_final_def sort_values_def)

lemma sorted_sort_values: "sorted (map sort_key_of (sort_values df))"
  by (simp add: sort_values_def)

lemma sort_values_idem: "sort_values (sort_values df) = sort_values df"
  unfolding sort_values_def by (rule sort_key_id_if_sorted) simp

lemma key_le_iff:
  "sort_key_of a \<le> sort_key_of b
     \<longleftrightarrow> station a < station b \<or> (station a = station b \<and> month a \<le> month b)"
  by (auto simp: sort_key_of_def)

subsection \<open>The run on the example table\<close>

lemma ex_stations: "unique (map station ex_df) = [''PAMR'', ''PAED'', ''PAXX'']"
  by (simp add: ex_df_def unique_def)

lemma ex_last_mo:
  "last_mo ex_df ''PAMR'' = Inr (2018, 2, 1, 0)"
  "last_mo ex_df ''PAED'' = Inr (2018, 2, 1, 0)"
  "last_mo ex_df ''PAXX'' = Inl TypeError"
  by (simp_all add: ex_df_def last_mo_def)

lemma anchor_feb_2018: "plus_days (2018, 2, Suc 0, 0) 32 = Inr (2018, 3, 5, 0)"
  using add_days_32_first[of 2 2018 0]
  by (simp add: plus_days_def in_bounds_def days_in_month_def is_leap_def)

lemma paed_monthly_eval:
  "monthly (hourly 2018 3 700 50 @ hourly 2018 4 300 40) =
     [\<lparr>month = (2018, 3, 1, 0), hdd60 = Some 310, hdd65 = Some 465, coverage = 700 / 744\<rparr>,
      \<lparr>month = (2018, 4, 1, 0), hdd60 = Some 600, hdd65 = Some 750, coverage = 300 / 720\<rparr>]"
  by (simp add: monthly_def resample_def mkey_def month_end_def dfm_of_bin_def days_in_month_def
      mean_def hdd60_hour_def hdd65_hour_def dt_defs hourly_def sum_list_triv comp_def
      is_leap_def Let_def image_constant_conv filter_map)

lemma paed_monthly:
  "dd_for_site (serving paed_db) ''PAED'' (2018, 3, 5, 0) =
     Inr [\<lparr>month = (2018, 3, 1, 0), hdd60 = Some 310, hdd65 = Some 465, coverage = 700 / 744\<rparr>,
          \<lparr>month = (2018, 4, 1, 0), hdd60 = Some 600, hdd65 = Some 750, coverage = 300 / 720\<rparr>]"
  unfolding dd_for_site_answers[OF paed_answers] paed_monthly_eval ..

lemma ex_df_new:
  "df_new (serving paed_db) ex_df ''PAMR'' = Inl (ValueError (Scalar ''unknown sensor''))"
  "df_new (serving paed_db) ex_df ''PAED'' =
     Inr [\<lparr>month = (2018, 3, 1, 0), hdd60 = Some 310, hdd65 = Some 465, station = ''PAED''\<rparr>]"
  "df_new (serving paed_db) ex_df ''PAXX'' = Inl TypeError"
    apply (simp add: df_new_def ex_last_mo anchor_feb_2018 dd_for_site_def dfm_of_reply_def
      serving_def paed_db_def)
   apply (simp add: df_new_def ex_last_mo anchor_feb_2018 paed_monthly MIN_COVERAGE_def to_df_row_def)
  apply (simp add: df_new_def ex_last_mo)
  done

lemma ex_run_loop:
  "run_loop (serving paed_db) ex_df =
     ([[\<lparr>month = (2018, 3, 1, 0), hdd60 = Some 310, hdd65 = Some 465, station = ''PAED''\<rparr>]],
      [Processing ''PAMR'', Exc_info (ValueError (Scalar ''unknown sensor'')),
       Processing ''PAED'', New_months 1,
       Processing ''PAXX'', Exc_info TypeError])"
  by (simp add: run_loop_def ex_stations loop_body_def ex_df_new)

lemma ex_df_final:
  "df_final (serving paed_db) ex_df =
     [\<lparr>month = (2018, 1, 1, 0), hdd60 = Some 1400, hdd65 = Some 1555, station = ''PAED''\<rparr>,
      \<lparr>month = (2018, 2, 1, 0), hdd60 = Some 1257, hdd65 = Some 1397, station = ''PAED''\<rparr>,
      \<lparr>month = (2018, 3, 1, 0), hdd60 = Some 310, hdd65 = Some 465, station = ''PAED''\<rparr>,
      \<lparr>month = (2018, 1, 1, 0), hdd60 = Some 1300, hdd65 = Some 1455, station = ''PAMR''\<rparr>,
      \<lparr>month = (2018, 2, 1, 0), hdd60 = Some 1200, hdd65 = Some 1340, station = ''PAMR''\<rparr>,
      \<lparr>month = (2018, 2, 1, 0), hdd60 = Some 1100, hdd65 = Some 1240, station = ''PAXX''\<rparr>]"
proof -
  have new: "new_dfs (serving paed_db) ex_df =
      [[\<lparr>month = (2018, 3, 1, 0), hdd60 = Some 310, hdd65 = Some 465, station = ''PAED''\<rparr>]]"
    by (simp add: new_dfs_def ex_run_loop)
  show ?thesis unfolding df_final_def new
    by (simp add: sort_values_def sort_key_of_def ex_df_def)
qed

subsection \<open>The final table\<close>

text \<open>
  Claim C6. The final table, which the run persists, is the existing table followed by
  the new tables of \<^verbatim>\<open>new_dfs\<close>, sorted: it has exactly the rows of both, and of any two of
  its rows the earlier one has the smaller station code, or the same station and a month
  that is not later.
\<close>

theorem merge_sorted:
  "df_final bmon df_exist = sort_values (df_exist @ concat (new_dfs bmon df_exist))
   \<and> mset (df_final bmon df_exist) = mset df_exist + mset (concat (new_dfs bmon df_exist))
   \<and> sorted_wrt (\<lambda>a b. station a < station b \<or> (station a = station b \<and> month a \<le> month b))
        (df_final bmon df_exist)"
proof -
  have "sorted (map sort_key_of (df_final bmon df_exist))"
    unfolding df_final_eq by (rule sorted_sort_values)
  then have "sorted_wrt (\<lambda>a b. station a < station b \<or> (station a = station b \<and> month a \<le> month b))
        (df_final bmon df_exist)"
    by (simp add: sorted_map key_le_iff)
  moreover have "mset (df_final bmon df_exist) = mset df_exist + mset (concat (new_dfs bmon df_exist))"
    by (simp add: df_final_eq sort_values_def)
  ultimately show ?thesis by (intro conjI) (rule df_final_eq, assumption+)
qed

theorem merge_sorted_witness:
  "df_final (serving paed_db) ex_df =
     [\<lparr>month = (2018, 1, 1, 0), hdd60 = Some 1400, hdd65 = Some 1555, station = ''PAED''\<rparr>,
      \<lparr>month = (2018, 2, 1, 0), hdd60 = Some 1257, hdd65 = Some 1397, station = ''PAED''\<rparr>,
      \<lparr>month = (2018, 3, 1, 0), hdd60 = Some 310, hdd65 = Some 465, station = ''PAED''\<rparr>,
      \<lparr>month = (2018, 1, 1, 0), hdd60 = Some 1300, hdd65 = Some 1455, station = ''PAMR''\<rparr>,
      \<lparr>month = (2018, 2, 1, 0), hdd60 = Some 1200, hdd65 = Some 1340, station = ''PAMR''\<rparr>,
      \<lparr>month = (2018, 2, 1, 0), hdd60 = Some 1100, hdd65 = Some 1240, station = ''PAXX''\<rparr>]
   \<and> df_final (serving paed_db) ex_df
        = sort_values (ex_df @ concat (new_dfs (serving paed_db) ex_df))
   \<and> mset (df_final (serving paed_db) ex_df)
        = mset ex_df + mset (concat (new_dfs (serving paed_db) ex_df))
   \<and> sorted_wrt (\<lambda>a b. station a < station b \<or> (station a = station b \<and> month a \<le> month b))
        (df_final (serving paed_db) ex_df)"
  using merge_sorted[of "serving paed_db" ex_df] ex_df_final by (intro conjI) blast+

subsection \<open>A station that fails\<close>

lemma rows_of_failed_station:
  assumes "df_new bmon df_exist X = Inl e"
  shows "filter (\<lambda>r. station r = X) (df_final bmon df_exist)
           = sort_values (filter (\<lambda>r. station r = X) df_exist)"
proof -
  have "staged bmon df_exist X = []" using assms by (simp add: staged_def)
  then have "r \<notin> set (concat (new_dfs bmon df_exist))" if "station r = X" for r
    unfolding set_concat_new_dfs using that staged_station[of r bmon df_exist] by auto
  then have none: "filter (\<lambda>r. station r = X) (concat (new_dfs bmon df_exist)) = []"
    unfolding filter_empty_conv by blast
  have "filter (\<lambda>r. station r = X) (df_final bmon df_exist)
      = sort_key sort_key_of (filter (\<lambda>r. station r = X) (df_exist @ concat (new_dfs bmon df_exist)))"
    unfolding df_final_eq sort_values_def by (rule filter_sort)
  also have "filter (\<lambda>r. station r = X) (df_exist @ concat (new_dfs bmon df_exist))
      = filter (\<lambda>r. station r = X) df_exist"
    unfolding filter_append none by simp
  finally show ?thesis by (simp only: sort_values_def)
qed

text \<open>
  A station with a single row in the existing table always fails, before the remote source
  is asked: its row stays as it is and nothing is staged for it.
\<close>

lemma single_row_station:
  assumes "filter (\<lambda>r. station r = stn) df_exist = [r]"
  shows "df_new bmon df_exist stn = Inl TypeError"
    and "filter (\<lambda>r. station r = stn) (df_final bmon df_exist) = [r]"
proof -
  show f: "df_new bmon df_exist stn = Inl TypeError"
    using assms by (simp add: df_new_def last_mo_def)
  show "filter (\<lambda>r. station r = stn) (df_final bmon df_exist) = [r]"
    unfolding rows_of_failed_station[OF f] assms by (simp add: sort_values_def)
qed

text \<open>
  Claim C4. When the turn of a station \<open>X\<close> raises an error \<open>e\<close>, whatever it is, the run
  prints the error right after the name of \<open>X\<close>, every station of the table still gets its
  turn, in order, the rows of \<open>X\<close> in the final table are the rows it had (in the order of
  the final sort), and the rows that the turn of any other station stages are in the final
  table. The run itself always ends: every exception of a turn is a value of the model.
\<close>

theorem failure_isolation:
  assumes "X \<in> set (map station df_exist)" and "df_new bmon df_exist X = Inl e"
  shows "(\<exists>pre post. printed bmon df_exist = pre @ [Processing X, Exc_info e] @ post)
       \<and> filter is_Processing (printed bmon df_exist)
           = map Processing (unique (map station df_exist))
       \<and> filter (\<lambda>r. station r = X) (df_final bmon df_exist)
           = sort_values (filter (\<lambda>r. station r = X) df_exist)
       \<and> (\<forall>Y new. Y \<in> set (map station df_exist) \<and> df_new bmon df_exist Y = Inr new
             \<longrightarrow> set new \<subseteq> set (df_final bmon df_exist))"
proof -
  let ?stns = "unique (map station df_exist)"
  let ?lines = "\<lambda>stn. [Processing stn, outcome bmon df_exist stn]"
  from assms(1) have "X \<in> set ?stns" by (simp add: set_unique)
  then obtain ys zs where split: "?stns = ys @ X # zs" by (auto dest!: split_list)
  have oX: "outcome bmon df_exist X = Exc_info e" using assms(2) by (simp add: outcome_def)
  have "printed bmon df_exist = concat (map ?lines ys) @ [Processing X, Exc_info e] @ concat (map ?lines zs)"
    unfolding printed_eq split by (simp add: oX)
  then have 1: "\<exists>pre post. printed bmon df_exist = pre @ [Processing X, Exc_info e] @ post" by blast
  have np: "\<not> is_Processing (outcome bmon df_exist stn)" for stn
    by (simp add: is_Processing_def outcome_def split: sum.splits)
  have yp: "is_Processing (Processing stn)" for stn by (simp add: is_Processing_def)
  have "filter is_Processing (concat (map ?lines stns)) = map Processing stns" for stns
    by (induction stns) (simp_all add: np yp)
  then have 2: "filter is_Processing (printed bmon df_exist) = map Processing ?stns"
    by (simp add: printed_eq)
  have 3: "filter (\<lambda>r. station r = X) (df_final bmon df_exist)
           = sort_values (filter (\<lambda>r. station r = X) df_exist)"
    by (rule rows_of_failed_station[OF assms(2)])
  have 4: "set new \<subseteq> set (df_final bmon df_exist)"
    if "Y \<in> set (map station df_exist)" "df_new bmon df_exist Y = Inr new" for Y new
  proof -
    from that(2) have "staged bmon df_exist Y = new" by (simp add: staged_def)
    with that(1) show ?thesis unfolding set_df_final set_concat_new_dfs by blast
  qed
  show ?thesis
  proof (intro conjI allI impI)
    show "\<exists>pre post. printed bmon df_exist = pre @ [Processing X, Exc_info e] @ post" by (fact 1)
    show "filter is_Processing (printed bmon df_exist) = map Processing ?stns" by (fact 2)
    show "filter (\<lambda>r. station r = X) (df_final bmon df_exist)
           = sort_values (filter (\<lambda>r. station r = X) df_exist)" by (fact 3)
    fix Y new
    assume "Y \<in> set (map station df_exist) \<and> df_new bmon df_exist Y = Inr new"
    then show "set new \<subseteq> set (df_final bmon df_exist)" using 4 by blast
  qed
qed

theorem failure_isolation_witness:
  "''PAMR'' \<in> set (map station ex_df)
   \<and> df_new (serving paed_db) ex_df ''PAMR'' = Inl (ValueError (Scalar ''unknown sensor''))
   \<and> (\<exists>pre post. printed (serving paed_db) ex_df
         = pre @ [Processing ''PAMR'', Exc_info (ValueError (Scalar ''unknown sensor''))] @ post)
   \<and> filter is_Processing (printed (serving paed_db) ex_df)
       = map Processing (unique (map station ex_df))
   \<and> filter (\<lambda>r. station r = ''PAMR'') (df_final (serving paed_db) ex_df)
       = sort_values (filter (\<lambda>r. station r = ''PAMR'') ex_df)
   \<and> ''PAED'' \<in> set (map station ex_df)
   \<and> df_new (serving paed_db) ex_df ''PAED''
       = Inr [\<lparr>month = (2018, 3, 1, 0), hdd60 = Some 310, hdd65 = Some 465, station = ''PAED''\<rparr>]
   \<and> set [\<lparr>month = (2018, 3, 1, 0), hdd60 = Some 310, hdd65 = Some 465, station = ''PAED''\<rparr>]
       \<subseteq> set (df_final (serving paed_db) ex_df)"
proof -
  have x: "''PAMR'' \<in> set (map station ex_df)" and y: "''PAED'' \<in> set (map station ex_df)"
    by (simp_all add: ex_df_def)
  note t = failure_isolation[OF x ex_df_new(1)]
  from t y ex_df_new(2)
  have "set [\<lparr>month = (2018, 3, 1, 0), hdd60 = Some 310, hdd65 = Some 465, station = ''PAED''\<rparr>]
       \<subseteq> set (df_final (serving paed_db) ex_df)"
    by blast
  with t x y ex_df_new(1,2) show ?thesis by (intro conjI) blast+
qed

subsection \<open>The coverage threshold\<close>

lemma monthly_month_inj:
  assumes "r \<in> set (monthly df)" "r' \<in> set (monthly df)" "month r = month r'"
  shows "r = r'"
proof -
  from monthly_row[OF assms(1)] obtain k where k: "r = bin_row df k" ..
  from monthly_row[OF assms(2)] obtain k' where k': "r' = bin_row df k'" ..
  from assms(3) k k' have "key_month k = key_month k'" by (simp add: month_bin_row_key)
  then have "k = k'" using key_month_le_iff[of k k'] key_month_le_iff[of k' k] by simp
  with k k' show ?thesis by simp
qed

lemma dd_for_site_month_inj:
  assumes "dd_for_site bmon stn start_date = Inr dfm" "r \<in> set dfm" "r' \<in> set dfm"
    "month r = month r'"
  shows "r = r'"
proof -
  from assms(1) obtain rs where "dfm = monthly rs" unfolding dd_for_site_Inr_iff by blast
  with assms(2-4) show ?thesis by (auto intro: monthly_month_inj)
qed

lemma staged_eq:
  assumes "last_mo df stn = Inr lm" "plus_days lm 32 = Inr next_mo"
    "dd_for_site bmon stn next_mo = Inr dfm"
  shows "staged bmon df stn = map (to_df_row stn) (filter (\<lambda>r. coverage r > MIN_COVERAGE) dfm)"
  using assms by (simp add: staged_def df_new_def)

text \<open>
  Claim C3. For a station whose turn reaches the Aggregator (it has a last month, and the
  date 32 days later is a \<^verbatim>\<open>Timestamp\<close>), a month \<open>r\<close> of the table the
  Aggregator returns is staged exactly when its coverage is above \<^verbatim>\<open>MIN_COVERAGE\<close>; a
  month with a coverage of exactly 0.7 is not staged, a month with a coverage above 0.7 is
  in the final table, and a month is in the final table only if its coverage is above the
  threshold or its row was in the existing table already.
\<close>

theorem coverage_filter:
  assumes "stn \<in> set (map station df_exist)"
    and "last_mo df_exist stn = Inr lm"
    and "plus_days lm 32 = Inr next_mo"
    and "dd_for_site bmon stn next_mo = Inr dfm"
    and "r \<in> set dfm"
  shows "(to_df_row stn r \<in> set (concat (new_dfs bmon df_exist)) \<longleftrightarrow> coverage r > MIN_COVERAGE)
       \<and> (coverage r = 7 / 10 \<longrightarrow> to_df_row stn r \<notin> set (concat (new_dfs bmon df_exist)))
       \<and> (coverage r > 7 / 10 \<longrightarrow> to_df_row stn r \<in> set (df_final bmon df_exist))
       \<and> (to_df_row stn r \<in> set (df_final bmon df_exist)
            \<longleftrightarrow> coverage r > MIN_COVERAGE \<or> to_df_row stn r \<in> set df_exist)"
proof -
  let ?row = "to_df_row stn r"
  have own: "?row \<in> set (staged bmon df_exist stn) \<longleftrightarrow> coverage r > MIN_COVERAGE"
  proof
    assume "?row \<in> set (staged bmon df_exist stn)"
    then obtain r' where r': "r' \<in> set dfm" "coverage r' > MIN_COVERAGE" "?row = to_df_row stn r'"
      unfolding staged_eq[OF assms(2,3,4)] by auto
    from r'(3) have "month r = month r'" by (simp add: to_df_row_def)
    with dd_for_site_month_inj[OF assms(4,5) r'(1)] r'(2) show "coverage r > MIN_COVERAGE" by simp
  next
    assume "coverage r > MIN_COVERAGE"
    with assms(5) show "?row \<in> set (staged bmon df_exist stn)"
      unfolding staged_eq[OF assms(2,3,4)] by simp
  qed
  have "?row \<in> set (concat (new_dfs bmon df_exist)) \<longleftrightarrow> ?row \<in> set (staged bmon df_exist stn)"
  proof
    assume "?row \<in> set (concat (new_dfs bmon df_exist))"
    then obtain stn' where "?row \<in> set (staged bmon df_exist stn')"
      unfolding set_concat_new_dfs by blast
    moreover from staged_station[OF this] have "stn' = stn" by (simp add: station_to_df_row)
    ultimately show "?row \<in> set (staged bmon df_exist stn)" by simp
  next
    assume "?row \<in> set (staged bmon df_exist stn)"
    with assms(1) show "?row \<in> set (concat (new_dfs bmon df_exist))"
      unfolding set_concat_new_dfs by blast
  qed
  with own have 1: "?row \<in> set (concat (new_dfs bmon df_exist)) \<longleftrightarrow> coverage r > MIN_COVERAGE"
    by simp
  then have 2: "coverage r = 7 / 10 \<longrightarrow> ?row \<notin> set (concat (new_dfs bmon df_exist))"
    by (simp add: MIN_COVERAGE_def)
  have 4: "?row \<in> set (df_final bmon df_exist)
            \<longleftrightarrow> coverage r > MIN_COVERAGE \<or> ?row \<in> set df_exist"
    unfolding set_df_final using 1 by blast
  then have 3: "coverage r > 7 / 10 \<longrightarrow> ?row \<in> set (df_final bmon df_exist)"
    by (simp add: MIN_COVERAGE_def)
  from 1 2 3 4 show ?thesis by (intro conjI)
qed

theorem coverage_filter_witness:
  "''PAED'' \<in> set (map station ex_df)
   \<and> last_mo ex_df ''PAED'' = Inr (2018, 2, 1, 0)
   \<and> plus_days (2018, 2, 1, 0) 32 = Inr (2018, 3, 5, 0)
   \<and> dd_for_site (serving paed_db) ''PAED'' (2018, 3, 5, 0) =
       Inr [\<lparr>month = (2018, 3, 1, 0), hdd60 = Some 310, hdd65 = Some 465, coverage = 700 / 744\<rparr>,
            \<lparr>month = (2018, 4, 1, 0), hdd60 = Some 600, hdd65 = Some 750, coverage = 300 / 720\<rparr>]
   \<and> (700 / 744 :: real) > MIN_COVERAGE
   \<and> \<lparr>month = (2018, 3, 1, 0), hdd60 = Some 310, hdd65 = Some 465, station = ''PAED''\<rparr>
       \<in> set (df_final (serving paed_db) ex_df)
   \<and> \<not> (300 / 720 :: real) > MIN_COVERAGE
   \<and> \<lparr>month = (2018, 4, 1, 0), hdd60 = Some 600, hdd65 = Some 750, station = ''PAED''\<rparr>
       \<notin> set (concat (new_dfs (serving paed_db) ex_df))"
proof -
  let ?mar = "\<lparr>month = (2018, 3, 1, 0), hdd60 = Some 310, hdd65 = Some 465, coverage = 700 / 744 :: real\<rparr>"
  let ?apr = "\<lparr>month = (2018, 4, 1, 0), hdd60 = Some 600, hdd65 = Some 750, coverage = 300 / 720 :: real\<rparr>"
  have s: "''PAED'' \<in> set (map station ex_df)" by (simp add: ex_df_def)
  have p: "plus_days (2018, 2, 1, 0) 32 = Inr (2018, 3, 5, 0)"
    using anchor_feb_2018 by simp
  have d: "dd_for_site (serving paed_db) ''PAED'' (2018, 3, 5, 0) = Inr [?mar, ?apr]"
    by (rule paed_monthly)
  have c: "(700 / 744 :: real) > MIN_COVERAGE" "\<not> (300 / 720 :: real) > MIN_COVERAGE"
    by (simp_all add: MIN_COVERAGE_def)
  have "?mar \<in> set [?mar, ?apr]" by simp
  from coverage_filter[OF s ex_last_mo(2) p d this] c(1)
  have 1: "to_df_row ''PAED'' ?mar \<in> set (df_final (serving paed_db) ex_df)" by simp
  have "?apr \<in> set [?mar, ?apr]" by simp
  from coverage_filter[OF s ex_last_mo(2) p d this] c(2)
  have 2: "to_df_row ''PAED'' ?apr \<notin> set (concat (new_dfs (serving paed_db) ex_df))" by simp
  from 1 2 s ex_last_mo(2) p d c show ?thesis by (simp add: to_df_row_def)
qed

subsection \<open>Repeated runs\<close>

lemma add_days_progress:
  "(year_of (add_days n t) = year_of t \<and> month_of (add_days n t) = month_of t
      \<and> day_of (add_days n t) = day_of t + n
      \<and> (0 < n \<longrightarrow> day_of t + n \<le> days_in_month (year_of t) (month_of t)))
   \<or> (year_of t, month_of t) < (year_of (add_days n t), month_of (add_days n t))"
proof (induction n)
  case 0
  then show ?case by simp
next
  case (Suc n)
  obtain y m d tod where s: "add_days n t = (y, m, d, tod)" by (cases "add_days n t")
  from Suc s show ?case by (auto simp: dt_defs)
qed

lemma anchor_later: "t < month_start (add_days 32 t)"
proof -
  have "\<not> day_of t + 32 \<le> days_in_month (year_of t) (month_of t)"
    using days_in_month_bounds(2)[of "year_of t" "month_of t"] by simp
  with add_days_progress[of 32 t]
  have "(year_of t, month_of t) < (year_of (add_days 32 t), month_of (add_days 32 t))" by auto
  then show ?thesis by (cases t) (auto simp: month_start_def dt_defs)
qed

lemma month_start_mono: "a \<le> b \<Longrightarrow> month_start a \<le> month_start b"
  by (cases a; cases b) (auto simp: month_start_def dt_defs)

lemma month_start_idem: "month_start (month_start a) = month_start a"
  by (simp add: month_start_def dt_defs)

lemma monthly_month_ge:
  assumes valid: "list_all (\<lambda>r. valid_dt (ts r)) rs" and row: "row \<in> set (monthly rs)"
  shows "\<exists>r \<in> set rs. month_start (ts r) \<le> month row"
proof -
  from row have ne: "rs \<noteq> []" by (auto simp: monthly_eq)
  with row obtain k where k: "row = bin_row rs k" "first_key rs \<le> k"
    by (auto simp: monthly_eq)
  let ?M = "set (map (\<lambda>r. month_start (ts r)) rs)"
  have "Min ?M \<in> ?M" by (rule Min_in) (use ne in simp_all)
  then obtain r where r: "r \<in> set rs" "month_start (ts r) = Min ?M" by auto
  have "Min ?M \<le> month row"
    unfolding month_start_extremes(1)[OF valid ne] k(1) month_bin_row_key key_month_le_iff
    by (rule k(2))
  then have "month_start (ts r) \<le> month row" by (simp only: r(2))
  with r(1) show ?thesis ..
qed

lemma last_mo_ge:
  assumes "last_mo df stn = Inr lm" "d \<in> set df" "station d = stn"
  shows "month d \<le> lm"
proof -
  let ?rows = "filter (\<lambda>r. station r = stn) df"
  from assms(2,3) have d: "d \<in> set ?rows" by simp
  from assms(1) obtain r r' rs where rows: "?rows = r # r' # rs"
    and lm: "lm = Max (set (map month (r # r' # rs)))"
    unfolding last_mo_def by (auto split: list.splits)
  from d have "month d \<in> set (map month (r # r' # rs))" unfolding rows set_map by (rule imageI)
  then show ?thesis unfolding lm by (intro Max_ge) simp_all
qed

lemma staged_later:
  assumes hs: "honours_start bmon"
    and row: "row \<in> set (staged bmon df stn)"
    and d: "d \<in> set df" "station d = stn"
  shows "month d < month row"
proof -
  from row obtain new where new: "df_new bmon df stn = Inr new" "row \<in> set new"
    by (cases "df_new bmon df stn") (auto simp: staged_def)
  obtain lm dfm where lm: "last_mo df stn = Inr lm"
    and dfm: "dd_for_site bmon stn (add_days 32 lm) = Inr dfm"
    and n: "new = map (to_df_row stn) (filter (\<lambda>r. coverage r > MIN_COVERAGE) dfm)"
    by (rule df_new_Inr[OF new(1)])
  from new(2) n obtain r where r: "r \<in> set dfm" "row = to_df_row stn r" by auto
  from dfm obtain rs where rs: "answers bmon stn (add_days 32 lm) rs" "dfm = monthly rs"
    unfolding dd_for_site_Inr_iff by blast
  from rs(1) have valid: "list_all (\<lambda>r. valid_dt (ts r)) rs"
    and reply: "bmon (stn @ ''_temp'') (month_start (add_days 32 lm))
        = Reply \<lparr>status = Some ''success'', data = Some (Readings rs)\<rparr>"
    by (simp_all add: answers_valid) (simp add: answers_def)
  from hs reply have from_start: "\<forall>x \<in> set rs. month_start (add_days 32 lm) \<le> ts x"
    unfolding honours_start_def by fastforce
  from monthly_month_ge[OF valid] r(1) rs(2)
  obtain x where x: "x \<in> set rs" "month_start (ts x) \<le> month r" by blast
  from from_start x(1) have "month_start (add_days 32 lm) \<le> ts x" by blast
  from month_start_mono[OF this] have "month_start (add_days 32 lm) \<le> month_start (ts x)"
    by (simp add: month_start_idem)
  with x(2) have "month_start (add_days 32 lm) \<le> month r" by simp
  with anchor_later[of lm] have "lm < month r" by simp
  with last_mo_ge[OF lm d] r(2) show ?thesis by (simp add: month_to_df_row)
qed





lemma no_new_months_staged:
  assumes "no_new_months bmon df" "stn \<in> set (map station df)"
  shows "staged bmon df stn = []"
proof (cases "df_new bmon df stn")
  case (Inl e)
  then show ?thesis by (simp add: staged_def)
next
  case (Inr new)
  obtain lm dfm where lm: "last_mo df stn = Inr lm"
    and p: "plus_days lm 32 = Inr (add_days 32 lm)"
    and dfm: "dd_for_site bmon stn (add_days 32 lm) = Inr dfm"
    and n: "new = map (to_df_row stn) (filter (\<lambda>r. coverage r > MIN_COVERAGE) dfm)"
    by (rule df_new_Inr[OF Inr])
  from assms lm p dfm have "\<forall>r \<in> set dfm. \<not> coverage r > MIN_COVERAGE"
    unfolding no_new_months_def by blast
  then have "filter (\<lambda>r. coverage r > MIN_COVERAGE) dfm = []" by (simp add: filter_empty_conv)
  with n Inr show ?thesis by (simp add: staged_def)
qed

lemma run_without_new_months:
  assumes "no_new_months bmon df"
  shows "df_final bmon df = sort_values df"
proof -
  have "\<forall>stn \<in> set (unique (map station df)). staged bmon df stn = []"
    using no_new_months_staged[OF assms] by (simp only: set_unique) blast
  then have "concat (new_dfs bmon df) = []" by (simp add: concat_new_dfs)
  then show ?thesis unfolding df_final_eq by (simp only: append_Nil2)
qed

lemma serving_honours_start: "honours_start (serving db)"
  by (auto simp: honours_start_def serving_def split: option.splits)







text \<open>
  A source that serves the same readings at both runs offers no new qualifying month at
  the second run: what the first run did not stage, the second run does not stage either.
\<close>

lemma last_mo_Inr_iff:
  "last_mo df stn = Inr lm \<longleftrightarrow>
     (2 \<le> length (filter (\<lambda>r. station r = stn) df)
      \<and> lm = Max (set (map month (filter (\<lambda>r. station r = stn) df))))"
proof (cases "filter (\<lambda>r. station r = stn) df")
  case Nil
  then show ?thesis by (simp add: last_mo_def)
next
  case (Cons r rs)
  show ?thesis
  proof (cases rs)
    case Nil
    with Cons show ?thesis by (simp add: last_mo_def)
  next
    case (Cons r' rs')
    with \<open>filter (\<lambda>r. station r = stn) df = r # rs\<close> show ?thesis
      by (simp only: last_mo_def list.case) auto
  qed
qed

lemma filter_station_staged:
  "filter (\<lambda>r. station r = stn) (staged bmon df s) = (if s = stn then staged bmon df s else [])"
  using staged_station[of _ bmon df s] by (auto simp: filter_empty_conv filter_id_conv)

lemma filter_station_concat_staged:
  assumes "distinct stns"
  shows "filter (\<lambda>r. station r = stn) (concat (map (staged bmon df) stns))
           = (if stn \<in> set stns then staged bmon df stn else [])"
  using assms by (induction stns) (auto simp: filter_station_staged)

lemma rows_after_run:
  assumes "stn \<in> set (map station df)"
  shows "filter (\<lambda>r. station r = stn) (df_final bmon df)
           = sort_values (filter (\<lambda>r. station r = stn) df @ staged bmon df stn)"
proof -
  have a: "filter (\<lambda>r. station r = stn) (df_final bmon df)
      = sort_key sort_key_of
          (filter (\<lambda>r. station r = stn) df @ filter (\<lambda>r. station r = stn) (concat (new_dfs bmon df)))"
    unfolding df_final_eq sort_values_def filter_sort filter_append ..
  have b: "filter (\<lambda>r. station r = stn) (concat (new_dfs bmon df)) = staged bmon df stn"
    unfolding concat_new_dfs filter_station_concat_staged[OF distinct_unique] set_unique
    using assms by simp
  show ?thesis unfolding a b sort_values_def ..
qed

lemma stations_after_run: "set (map station (df_final bmon df)) = set (map station df)"
proof -
  have "station ` set (concat (new_dfs bmon df)) \<subseteq> station ` set df"
    unfolding set_concat_new_dfs using staged_station[of _ bmon df] by auto
  then show ?thesis unfolding set_map set_df_final by auto
qed

lemma key_month_Suc:
  "key_month (Suc k) =
     (if k mod 12 + 1 = 12 then (k div 12 + 1, 1, 1, 0) else (k div 12, k mod 12 + 1 + 1, 1, 0))"
proof -
  define a b where "a = k div 12" and "b = k mod 12"
  have k: "k = a * 12 + b" and b: "b < 12" by (simp_all add: a_def b_def)
  show ?thesis
  proof (cases "b = 11")
    case True
    with k have "Suc k = (a + 1) * 12" by simp
    then have "Suc k div 12 = a + 1" "Suc k mod 12 = 0" by simp_all
    with True show ?thesis by (simp add: key_month_def a_def[symmetric] b_def[symmetric])
  next
    case False
    with b have sb: "Suc b < 12" by simp
    from k have "Suc k = a * 12 + Suc b" by simp
    with sb have "Suc k div 12 = a" "Suc k mod 12 = Suc b" by simp_all
    with False show ?thesis by (simp add: key_month_def a_def[symmetric] b_def[symmetric])
  qed
qed

lemma key_month_anchor: "month_start (add_days 32 (key_month k)) = key_month (Suc k)"
proof -
  have m: "1 \<le> k mod 12 + 1" "k mod 12 + 1 \<le> 12" by simp_all
  from add_days_32_first[OF m, of "k div 12" 0, THEN conjunct2]
  show ?thesis unfolding key_month_Suc unfolding key_month_def .
qed

lemma month_start_le: "valid_dt t \<Longrightarrow> month_start t \<le> t"
  by (cases t) (auto simp: month_start_def valid_dt_def dt_defs)

lemma dfm_after_start:
  assumes hs: "honours_start bmon"
    and dfm: "dd_for_site bmon stn start_date = Inr dfm"
    and r: "r \<in> set dfm"
  shows "month_start start_date \<le> month r"
proof -
  from dfm obtain rs where rs: "answers bmon stn start_date rs" "dfm = monthly rs"
    unfolding dd_for_site_Inr_iff by blast
  from rs(1) have valid: "list_all (\<lambda>r. valid_dt (ts r)) rs"
    and reply: "bmon (stn @ ''_temp'') (month_start start_date)
        = Reply \<lparr>status = Some ''success'', data = Some (Readings rs)\<rparr>"
    by (simp_all add: answers_valid) (simp add: answers_def)
  from hs reply have from_start: "\<forall>x \<in> set rs. month_start start_date \<le> ts x"
    unfolding honours_start_def by fastforce
  from monthly_month_ge[OF valid] r rs(2)
  obtain x where x: "x \<in> set rs" "month_start (ts x) \<le> month r" by blast
  from from_start x(1) have "month_start start_date \<le> ts x" by blast
  from month_start_mono[OF this] have "month_start start_date \<le> month_start (ts x)"
    by (simp add: month_start_idem)
  with x(2) show ?thesis by simp
qed

lemma serving_answers:
  assumes "answers (serving db) stn start_date rs"
  obtains all where "db (stn @ ''_temp'') = Some all"
    and "rs = filter (\<lambda>r. month_start start_date \<le> ts r) all"
  using assms by (auto simp: answers_def serving_def split: option.splits)

lemma unchanged_source_no_new_months:
  "no_new_months (serving db) (df_final (serving db) D)"
  unfolding no_new_months_def
proof (intro ballI allI impI)
  let ?bmon = "serving db"
  let ?D1 = "df_final ?bmon D"
  fix stn lm1 next_mo dfm1 r1
  assume stn1: "stn \<in> set (map station ?D1)"
    and run2': "last_mo ?D1 stn = Inr lm1 \<and> plus_days lm1 32 = Inr next_mo
          \<and> dd_for_site ?bmon stn next_mo = Inr dfm1"
    and r1: "r1 \<in> set dfm1"
  from run2' have p1: "plus_days lm1 32 = Inr (add_days 32 lm1)"
    and run2: "last_mo ?D1 stn = Inr lm1 \<and> dd_for_site ?bmon stn (add_days 32 lm1) = Inr dfm1"
    by (auto simp: plus_days_Inr)
  from stn1 have stn: "stn \<in> set (map station D)" by (simp only: stations_after_run)
  let ?rows0 = "filter (\<lambda>r. station r = stn) D"
  let ?S = "staged ?bmon D stn"
  note rows1 = rows_after_run[OF stn, of ?bmon]
  let ?rows1 = "filter (\<lambda>r. station r = stn) ?D1"
  have len: "length ?rows1 = length (?rows0 @ ?S)"
    and st: "set (map month ?rows1) = set (map month (?rows0 @ ?S))"
    unfolding rows1 sort_values_def by (simp_all add: image_Un)
  from run2 have dfm1: "dd_for_site ?bmon stn (add_days 32 lm1) = Inr dfm1" ..
  from run2 have "2 \<le> length ?rows1" "lm1 = Max (set (map month ?rows1))"
    unfolding last_mo_Inr_iff by blast+
  then have lm1: "2 \<le> length (?rows0 @ ?S)" "lm1 = Max (set (map month (?rows0 @ ?S)))"
    unfolding len st .
  show "\<not> coverage r1 > MIN_COVERAGE"
  proof (cases "?S = []")
    case True
    with lm1 have "last_mo D stn = Inr lm1" unfolding last_mo_Inr_iff by simp
    from staged_eq[OF this p1 dfm1] True r1 show ?thesis by (auto simp: filter_empty_conv)
  next
    case False
    then obtain new where new: "df_new ?bmon D stn = Inr new" "?S = new"
      by (cases "df_new ?bmon D stn") (auto simp: staged_def)
    obtain lm0 dfm0 where lm0: "last_mo D stn = Inr lm0"
      and dfm0: "dd_for_site ?bmon stn (add_days 32 lm0) = Inr dfm0"
      and n: "new = map (to_df_row stn) (filter (\<lambda>r. coverage r > MIN_COVERAGE) dfm0)"
      by (rule df_new_Inr[OF new(1)])
    let ?Q = "filter (\<lambda>r. coverage r > MIN_COVERAGE) dfm0"
    have months_S: "map month ?S = map month ?Q"
      by (simp add: new(2) n month_to_df_row comp_def)
    from False have Qne: "?Q \<noteq> []" by (simp add: new(2) n)
    \<comment> \<open>the last month after the first run is a month that the first run staged\<close>
    have later: "m0 < m" if "m0 \<in> set (map month ?rows0)" "m \<in> set (map month ?S)" for m0 m
      using that staged_later[OF serving_honours_start, of _ db D stn] by auto
    have "lm1 \<in> set (map month (?rows0 @ ?S))"
      unfolding lm1(2) by (rule Max_in) (use False in simp_all)
    moreover have "lm1 \<notin> set (map month ?rows0)"
    proof
      assume a: "lm1 \<in> set (map month ?rows0)"
      from False have "last ?S \<in> set ?S" by (rule last_in_set)
      then have m: "month (last ?S) \<in> set (map month ?S)" unfolding set_map by (rule imageI)
      define m where "m = month (last ?S)"
      from m have m: "m \<in> set (map month ?S)" by (simp only: m_def)
      with later[OF a] have "lm1 < m" by blast
      moreover from m have "m \<le> lm1" unfolding lm1(2) by (intro Max_ge) simp_all
      ultimately show False by simp
    qed
    ultimately have "lm1 \<in> set (map month ?Q)" by (simp add: months_S)
    then obtain q where q: "q \<in> set dfm0" "coverage q > MIN_COVERAGE" "lm1 = month q" by auto
    have top: "month r \<le> lm1" if "r \<in> set dfm0" "coverage r > MIN_COVERAGE" for r
    proof -
      from that have "month r \<in> set (map month (?rows0 @ ?S))" by (simp add: months_S)
      then show ?thesis unfolding lm1(2) by (intro Max_ge) simp_all
    qed
    \<comment> \<open>the readings of the two requests\<close>
    from dfm0 obtain rs0 where rs0: "answers ?bmon stn (add_days 32 lm0) rs0" "dfm0 = monthly rs0"
      unfolding dd_for_site_Inr_iff by blast
    from dfm1 obtain rs1 where rs1: "answers ?bmon stn (add_days 32 lm1) rs1" "dfm1 = monthly rs1"
      unfolding dd_for_site_Inr_iff by blast
    from rs0(1) have valid0: "list_all (\<lambda>r. valid_dt (ts r)) rs0" by (rule answers_valid)
    from rs1(1) have valid1: "list_all (\<lambda>r. valid_dt (ts r)) rs1" by (rule answers_valid)
    let ?s0 = "month_start (add_days 32 lm0)"
    let ?s1 = "month_start (add_days 32 lm1)"
    obtain all where all: "db (stn @ ''_temp'') = Some all"
      and f0: "rs0 = filter (\<lambda>r. ?s0 \<le> ts r) all"
      by (rule serving_answers[OF rs0(1)])
    obtain all' where "db (stn @ ''_temp'') = Some all'"
      and "rs1 = filter (\<lambda>r. ?s1 \<le> ts r) all'"
      by (rule serving_answers[OF rs1(1)])
    with all have f1: "rs1 = filter (\<lambda>r. ?s1 \<le> ts r) all" by simp
    from q(1) rs0(2) obtain kq where kq: "q = bin_row rs0 kq" "first_key rs0 \<le> kq"
      by (auto simp: monthly_eq split: if_splits)
    have lm1_key: "lm1 = key_month kq" by (simp add: q(3) kq(1) month_bin_row_key)
    have s1: "?s1 = key_month (Suc kq)" by (simp add: lm1_key key_month_anchor)
    have "?s0 \<le> month q" by (rule dfm_after_start[OF serving_honours_start dfm0 q(1)])
    also have "month q = key_month kq" using q(3) lm1_key by simp
    also have "key_month kq < key_month (Suc kq)" by (rule key_month_strict_mono) simp
    finally have s01: "?s0 \<le> ?s1" by (simp only: s1 less_imp_le)
    \<comment> \<open>the row of the second run is a row of the first run, later than the last month\<close>
    from r1 rs1(2) have ne1: "rs1 \<noteq> []" by (auto simp: monthly_eq)
    with r1 rs1(2) obtain k1 where k1: "r1 = bin_row rs1 k1" "first_key rs1 \<le> k1" "k1 \<le> last_key rs1"
      by (auto simp: monthly_eq)
    have key1: "Suc kq \<le> mkey (ts x)" if "x \<in> set rs1" for x
    proof -
      from that valid1 have v: "valid_dt (ts x)" by (simp add: list_all_iff)
      from that have "?s1 \<le> ts x" by (simp add: f1)
      from month_start_mono[OF this] have "key_month (Suc kq) \<le> key_month (mkey (ts x))"
        unfolding key_month_mkey[OF v] s1[symmetric] by (simp add: month_start_idem)
      then show ?thesis by (simp only: key_month_le_iff)
    qed
    have "Suc kq \<le> first_key rs1"
      unfolding first_key_def using ne1 key1 by (subst Min_ge_iff) auto
    with k1(2) have k1_gt: "Suc kq \<le> k1" by simp
    have sub: "set rs1 \<subseteq> set rs0" unfolding f0 f1 using s01 by auto
    have same_bin: "filter (\<lambda>r. mkey (ts r) = k1) rs1 = filter (\<lambda>r. mkey (ts r) = k1) rs0"
      unfolding f0 f1 filter_filter
    proof (intro filter_cong refl)
      fix x assume x: "x \<in> set all"
      show "(?s1 \<le> ts x \<and> mkey (ts x) = k1) = (?s0 \<le> ts x \<and> mkey (ts x) = k1)"
      proof (intro iffI conjI)
        assume "?s1 \<le> ts x \<and> mkey (ts x) = k1"
        with s01 show "?s0 \<le> ts x" "mkey (ts x) = k1" by auto
      next
        assume a: "?s0 \<le> ts x \<and> mkey (ts x) = k1"
        then show "mkey (ts x) = k1" ..
        from a x have "x \<in> set rs0" by (simp add: f0)
        with valid0 have v: "valid_dt (ts x)" by (simp add: list_all_iff)
        from a k1_gt have "key_month (Suc kq) \<le> key_month (mkey (ts x))"
          by (simp add: key_month_le_iff)
        also have "\<dots> \<le> ts x" unfolding key_month_mkey[OF v] by (rule month_start_le[OF v])
        finally show "?s1 \<le> ts x" by (simp only: s1)
      qed
    qed
    have cov: "coverage (bin_row rs0 k1) = coverage r1"
      unfolding k1(1) coverage_bin_row same_bin ..
    have "last_key rs1 \<le> last_key rs0"
      unfolding last_key_def using ne1 sub by (intro Max_mono) auto
    with k1(3) kq(2) k1_gt have "k1 \<in> set [first_key rs0 ..< Suc (last_key rs0)]"
      by (simp del: upt_Suc)
    then have "bin_row rs0 k1 \<in> set (map (bin_row rs0) [first_key rs0 ..< Suc (last_key rs0)])"
      unfolding set_map by (rule imageI)
    moreover from ne1 sub have "rs0 \<noteq> []" by auto
    ultimately have "bin_row rs0 k1 \<in> set dfm0"
      unfolding rs0(2) monthly_eq by (simp only: if_False)
    show ?thesis
    proof
      assume "coverage r1 > MIN_COVERAGE"
      with cov have "coverage (bin_row rs0 k1) > MIN_COVERAGE" by simp
      from top[OF \<open>bin_row rs0 k1 \<in> set dfm0\<close> this] have "key_month k1 \<le> key_month kq"
        by (simp add: month_bin_row_key lm1_key)
      with k1_gt show False by (simp add: key_month_le_iff)
    qed
  qed
qed

lemma unchanged_source_idempotent:
  "df_final (serving db) (df_final (serving db) D) = df_final (serving db) D"
  unfolding run_without_new_months[OF unchanged_source_no_new_months]
  by (simp add: df_final_eq[of "serving db" D] sort_values_idem)




subsection \<open>A source that ignores the start\<close>






end
